theory Spec2Isabelle
  imports Main
begin

section \<open>Python values and library primitives used by \<open>brownie/network/transaction.py\<close>\<close>

text \<open>
  Exceptions are values. Each constructor is one Python exception class that the modelled
  code can raise or let escape; \<open>DecodingError\<close> stands for whatever a decoder of the ABI
  raises.
\<close>

datatype error =
    IndexError
  | KeyError
  | TypeError
  | ValueError
  | StopIteration
  | NotImplementedError
  | TransactionNotFound
  | ZeroDivisionError
  | DecodingError
  | RPCRequestError string

text \<open>
  A JSON scalar of the node's reply: the fields \<open>gas\<close>, \<open>gasCost\<close>, \<open>pc\<close> and the stack
  entries arrive either as strings or as numbers, and the code tests \<open>isinstance(_, str)\<close>.
\<close>

datatype jval = JStr string | JInt int

fun is_str :: "jval \<Rightarrow> bool" where
  "is_str (JStr _) = True"
| "is_str (JInt _) = False"

fun is_int :: "jval \<Rightarrow> bool" where
  "is_int (JInt _) = True"
| "is_int (JStr _) = False"

definition startswith :: "string \<Rightarrow> string \<Rightarrow> bool" where
  "startswith s p = (take (length p) s = p)"

text \<open>Hexadecimal digits: \<open>hexval\<close> reads one (either case), \<open>hexchar\<close> writes one (lower case).\<close>

definition hexval :: "char \<Rightarrow> nat option" where
  "hexval c =
     (let n = of_char c :: nat in
      if 48 \<le> n \<and> n \<le> 57 then Some (n - 48)
      else if 97 \<le> n \<and> n \<le> 102 then Some (n - 87)
      else if 65 \<le> n \<and> n \<le> 70 then Some (n - 55)
      else None)"

definition is_hex :: "char \<Rightarrow> bool" where
  "is_hex c = (hexval c \<noteq> None)"

definition hexchar :: "nat \<Rightarrow> char" where
  "hexchar n = (if n < 10 then char_of (48 + n) else char_of (87 + n))"

text \<open>\<open>binascii.unhexlify\<close>: pairs of digits to bytes; an odd length or a non-digit raises.\<close>

fun unhexlify :: "string \<Rightarrow> error + nat list" where
  "unhexlify [] = Inr []"
| "unhexlify [c] = Inl ValueError"
| "unhexlify (a # b # cs) =
     (case (hexval a, hexval b) of
        (Some x, Some y) \<Rightarrow>
          (case unhexlify cs of Inl e \<Rightarrow> Inl e | Inr bs \<Rightarrow> Inr ((16 * x + y) # bs))
      | _ \<Rightarrow> Inl ValueError)"

text \<open>\<open>bytes.hex()\<close>: two lower-case digits per byte.\<close>

fun hexlify :: "nat list \<Rightarrow> string" where
  "hexlify [] = []"
| "hexlify (b # bs) = hexchar (b div 16 mod 16) # hexchar (b mod 16) # hexlify bs"

text \<open>
  \<open>hexbytes.HexBytes(s)\<close> for a string: an optional \<open>0x\<close>/\<open>0X\<close> prefix is dropped, an
  odd-length string is left-padded with one \<open>0\<close> (the parity is that of the whole string,
  prefix included), and the digits are unhexlified.
\<close>

definition hexstr_to_bytes :: "string \<Rightarrow> error + nat list" where
  "hexstr_to_bytes h =
     (let non_prefixed = (if startswith h ''0x'' \<or> startswith h ''0X'' then drop 2 h else h);
          padded = (if odd (length h) then CHR ''0'' # non_prefixed else non_prefixed)
      in unhexlify padded)"

text \<open>Python's \<open>hex(n)\<close> for a non-negative integer, without the prefix.\<close>

fun hexdigits :: "nat \<Rightarrow> string" where
  "hexdigits n = (if n < 16 then [hexchar n] else hexdigits (n div 16) @ [hexchar (n mod 16)])"

text \<open>
  \<open>HexBytes(v)\<close> on a JSON scalar: a string goes through \<open>hexstr_to_bytes\<close>, a
  non-negative integer through \<open>hex()\<close> first, a negative integer raises ValueError.
\<close>

fun HexBytes :: "jval \<Rightarrow> error + nat list" where
  "HexBytes (JStr s) = hexstr_to_bytes s"
| "HexBytes (JInt n) =
     (if n < 0 then Inl ValueError else hexstr_to_bytes (''0x'' @ hexdigits (nat n)))"

definition removeprefix :: "string \<Rightarrow> string \<Rightarrow> string" where
  "removeprefix s p = (if startswith s p then drop (length p) s else s)"

text \<open>\<open>str.zfill(width)\<close>: pad with zeros on the left, after a leading sign if there is one.\<close>

definition zfill :: "string \<Rightarrow> nat \<Rightarrow> string" where
  "zfill s width =
     (case s of
        c # cs \<Rightarrow>
          (if c = CHR ''+'' \<or> c = CHR ''-''
           then c # replicate (width - length s) CHR ''0'' @ cs
           else replicate (width - length s) CHR ''0'' @ s)
      | [] \<Rightarrow> replicate width CHR ''0'')"

text \<open>\<open>int.from_bytes(b, "big", signed=...)\<close>.\<close>

definition from_bytes_big :: "nat list \<Rightarrow> int" where
  "from_bytes_big bs = int (foldl (\<lambda>a b. 256 * a + b) 0 bs)"

definition from_bytes_big_signed :: "nat list \<Rightarrow> int" where
  "from_bytes_big_signed bs =
     (case bs of
        [] \<Rightarrow> 0
      | b # _ \<Rightarrow> (if 128 \<le> b then from_bytes_big bs - 256 ^ length bs else from_bytes_big bs))"

text \<open>
  \<open>int(s, 16)\<close>: TypeError on a non-string. On a string, surrounding white space is
  stripped; then come an optional sign, an optional \<open>0x\<close>/\<open>0X\<close> prefix, and at least
  one hexadecimal digit, where single underscores may stand between digits and right
  after the prefix. Anything else is a ValueError. Strings are byte strings here:
  the white space is the ASCII white space, the digits the ASCII digits.
\<close>

definition is_space :: "char \<Rightarrow> bool" where
  "is_space c = (let n = of_char c :: nat in (9 \<le> n \<and> n \<le> 13) \<or> (28 \<le> n \<and> n \<le> 32))"

definition strip :: "string \<Rightarrow> string" where
  "strip s = rev (dropWhile is_space (rev (dropWhile is_space s)))"

text \<open>
  The digits of a group-separated literal: \<open>None\<close> when the literal is empty, starts or
  ends with an underscore, or has two underscores in a row.
\<close>

fun ungroup :: "string \<Rightarrow> string option" where
  "ungroup [] = None"
| "ungroup [c] = (if c = CHR ''_'' then None else Some [c])"
| "ungroup (c # d # cs) =
     (if c = CHR ''_'' then None
      else if d = CHR ''_''
      then (case ungroup cs of None \<Rightarrow> None | Some r \<Rightarrow> Some (c # r))
      else (case ungroup (d # cs) of None \<Rightarrow> None | Some r \<Rightarrow> Some (c # r)))"

definition hex_nat :: "string \<Rightarrow> nat option" where
  "hex_nat ds =
     (if ds = [] \<or> \<not> list_all is_hex ds then None
      else Some (foldl (\<lambda>a c. 16 * a + the (hexval c)) 0 ds))"

definition int16_unsigned :: "string \<Rightarrow> error + int" where
  "int16_unsigned s =
     (let ds = (if startswith s ''0x'' \<or> startswith s ''0X''
                then (case drop 2 s of
                        c # cs \<Rightarrow> (if c = CHR ''_'' then cs else c # cs)
                      | [] \<Rightarrow> [])
                else s)
      in case ungroup ds of
           None \<Rightarrow> Inl ValueError
         | Some d \<Rightarrow> (case hex_nat d of None \<Rightarrow> Inl ValueError | Some n \<Rightarrow> Inr (int n)))"

fun int16 :: "jval \<Rightarrow> error + int" where
  "int16 (JInt _) = Inl TypeError"
| "int16 (JStr s) =
     (case strip s of
        c # cs \<Rightarrow>
          (if c = CHR ''-'' then (case int16_unsigned cs of Inl e \<Rightarrow> Inl e | Inr n \<Rightarrow> Inr (- n))
           else if c = CHR ''+'' then int16_unsigned cs
           else int16_unsigned (c # cs))
      | [] \<Rightarrow> Inl ValueError)"

text \<open>A list comprehension whose element expression can raise: the first error wins.\<close>

fun map_err :: "('a \<Rightarrow> error + 'b) \<Rightarrow> 'a list \<Rightarrow> error + 'b list" where
  "map_err f [] = Inr []"
| "map_err f (x # xs) =
     (case f x of
        Inl e \<Rightarrow> Inl e
      | Inr y \<Rightarrow> (case map_err f xs of Inl e \<Rightarrow> Inl e | Inr ys \<Rightarrow> Inr (y # ys)))"

text \<open>Sequencing of computations that can raise.\<close>

definition ebind :: "error + 'a \<Rightarrow> ('a \<Rightarrow> error + 'b) \<Rightarrow> error + 'b" where
  "ebind m f = (case m of Inl e \<Rightarrow> Inl e | Inr x \<Rightarrow> f x)"

text \<open>
  List indexing as Python does it: \<open>xs[k]\<close> for an integer \<open>k\<close>, negative indices counting
  from the end, IndexError out of range.
\<close>

definition py_index :: "'a list \<Rightarrow> int \<Rightarrow> error + 'a" where
  "py_index xs k =
     (let n = int (length xs); j = (if k < 0 then n + k else k)
      in if 0 \<le> j \<and> j < n then Inr (xs ! nat j) else Inl IndexError)"

text \<open>Arithmetic on a numeric field: an integer is used as it is, a string is a TypeError.\<close>

fun num :: "jval \<Rightarrow> error + int" where
  "num (JInt n) = Inr n"
| "num (JStr _) = Inl TypeError"

section \<open>Trace steps\<close>

text \<open>
  One entry of \<open>structLogs\<close>, a Python dict that the code mutates in place. The first seven
  fields come from the node; \<open>address\<close>, \<open>contractName\<close>, \<open>fn\<close>, \<open>jumpDepth\<close> and
  \<open>source\<close> are the keys that \<open>_expand_trace\<close> adds, \<open>None\<close> while the key is absent
  (for \<open>source\<close> also while it is \<open>False\<close>).
\<close>

record step =
  pc :: jval
  op :: string
  depth :: int
  gas :: jval
  gasCost :: jval
  stack :: "jval list"
  memory :: "string list"
  address :: "string option"
  contractName :: "string option option"
  fn :: "string option"
  jumpDepth :: "int option"
  source :: "(string \<times> int \<times> int) option"

section \<open>Trace normaliser: the format-fixing pass of \<open>_get_trace\<close>\<close>

text \<open>
  The loop that sets \<open>fix_stack\<close>: steps with an empty stack are skipped; the first entry
  of a non-empty stack ends the scan when it is not a string (\<open>fix_stack\<close> stays False) or
  when it starts with \<open>0x\<close> (\<open>fix_stack\<close> becomes True); otherwise the scan goes on.
\<close>

fun detect_fix_stack :: "step list \<Rightarrow> bool" where
  "detect_fix_stack [] = False"
| "detect_fix_stack (s # ss) =
     (case stack s of
        [] \<Rightarrow> detect_fix_stack ss
      | JInt _ # _ \<Rightarrow> False
      | JStr check # _ \<Rightarrow> (if startswith check ''0x'' then True else detect_fix_stack ss))"

text \<open>\<open>HexBytes(s).hex().removeprefix("0x").zfill(64)\<close>.\<close>

definition fix_stack_entry :: "jval \<Rightarrow> error + jval" where
  "fix_stack_entry v =
     (case HexBytes v of
        Inl e \<Rightarrow> Inl e
      | Inr bs \<Rightarrow> Inr (JStr (zfill (removeprefix (hexlify bs) ''0x'') 64)))"

text \<open>
  The three conversions of the fixing loop: the stack comprehension under \<open>fix_stack\<close>,
  and under \<open>fix_gas\<close> the \<open>gasCost\<close> and \<open>pc\<close> fields, each converted only when it
  is a string.
\<close>

definition fix_stack_list :: "bool \<Rightarrow> jval list \<Rightarrow> error + jval list" where
  "fix_stack_list fix_stack st = (if fix_stack then map_err fix_stack_entry st else Inr st)"

definition fix_gas_cost :: "jval \<Rightarrow> error + jval" where
  "fix_gas_cost v =
     (if is_str v
      then (case HexBytes v of Inl e \<Rightarrow> Inl e | Inr bs \<Rightarrow> Inr (JInt (from_bytes_big_signed bs)))
      else Inr v)"

definition fix_pc :: "jval \<Rightarrow> error + jval" where
  "fix_pc v =
     (if is_str v then (case int16 v of Inl e \<Rightarrow> Inl e | Inr p \<Rightarrow> Inr (JInt p)) else Inr v)"

text \<open>
  The body of the fixing loop for one step. The step is returned also when an exception
  escapes, with the assignments made before it: the dict is mutated in place.
\<close>

definition fix_step :: "bool \<Rightarrow> bool \<Rightarrow> step \<Rightarrow> error option \<times> step" where
  "fix_step fix_stack fix_gas s =
     (case fix_stack_list fix_stack (stack s) of
        Inl e \<Rightarrow> (Some e, s)
      | Inr st \<Rightarrow>
          (let s1 = s\<lparr>stack := st\<rparr> in
           if \<not> fix_gas then (None, s1)
           else
             (case int16 (gas s1) of
                Inl e \<Rightarrow> (Some e, s1)
              | Inr g \<Rightarrow>
                  (let s2 = s1\<lparr>gas := JInt g\<rparr> in
                   case fix_gas_cost (gasCost s2) of
                     Inl e \<Rightarrow> (Some e, s2)
                   | Inr gc \<Rightarrow>
                       (let s3 = s2\<lparr>gasCost := gc\<rparr> in
                        case fix_pc (pc s3) of
                          Inl e \<Rightarrow> (Some e, s3)
                        | Inr p \<Rightarrow> (None, s3\<lparr>pc := p\<rparr>))))))"

fun fix_steps :: "bool \<Rightarrow> bool \<Rightarrow> step list \<Rightarrow> error option \<times> step list" where
  "fix_steps fix_stack fix_gas [] = (None, [])"
| "fix_steps fix_stack fix_gas (s # ss) =
     (case fix_step fix_stack fix_gas s of
        (Some e, s') \<Rightarrow> (Some e, s' # ss)
      | (None, s') \<Rightarrow>
          (case fix_steps fix_stack fix_gas ss of (r, ss') \<Rightarrow> (r, s' # ss')))"

text \<open>
  Lines 686 to 719 of \<open>_get_trace\<close>, reached with a non-empty trace only (an empty one
  returns before). The result is the exception that escapes, if any, and the trace as the
  pass leaves it.
\<close>

definition normalize_trace :: "step list \<Rightarrow> error option \<times> step list" where
  "normalize_trace trace =
     (case trace of
        [] \<Rightarrow> (None, [])
      | first # _ \<Rightarrow>
          (let fix_stack = detect_fix_stack trace;
               fix_gas = is_str (gas first)
           in if fix_stack \<or> fix_gas then fix_steps fix_stack fix_gas trace
              else (None, trace)))"

text \<open>
  The two stack formats and the two numeric formats that nodes send. A prefixed word is
  \<open>0x\<close> and at most 64 digits; a fixed word is exactly 64 digits. A hexadecimal number is
  at least one digit, with or without \<open>0x\<close>.
\<close>

fun prefixed_word :: "jval \<Rightarrow> bool" where
  "prefixed_word (JStr s) = (startswith s ''0x'' \<and> length s \<le> 66 \<and> list_all is_hex (drop 2 s))"
| "prefixed_word (JInt _) = False"

fun fixed_word :: "jval \<Rightarrow> bool" where
  "fixed_word (JStr s) = (length s = 64 \<and> list_all is_hex s)"
| "fixed_word (JInt _) = False"

fun hexnum :: "jval \<Rightarrow> bool" where
  "hexnum (JStr s) =
     (let ds = (if startswith s ''0x'' then drop 2 s else s) in ds \<noteq> [] \<and> list_all is_hex ds)"
| "hexnum (JInt _) = False"

definition stack_format_prefixed :: "step list \<Rightarrow> bool" where
  "stack_format_prefixed trace = list_all (\<lambda>s. list_all prefixed_word (stack s)) trace"

definition stack_format_fixed :: "step list \<Rightarrow> bool" where
  "stack_format_fixed trace = list_all (\<lambda>s. list_all fixed_word (stack s)) trace"

definition numbers_native :: "step list \<Rightarrow> bool" where
  "numbers_native trace = list_all (\<lambda>s. is_int (gas s) \<and> is_int (gasCost s) \<and> is_int (pc s)) trace"

definition numbers_hex :: "step list \<Rightarrow> bool" where
  "numbers_hex trace =
     list_all (\<lambda>s. hexnum (gas s) \<and> (is_int (gasCost s) \<or> hexnum (gasCost s))
                    \<and> (is_int (pc s) \<or> hexnum (pc s))) trace"

text \<open>What a hexadecimal \<open>gasCost\<close> string denotes: the two's-complement value of its bytes.\<close>

definition signed_gas_cost :: "jval \<Rightarrow> jval" where
  "signed_gas_cost v =
     (case v of
        JInt n \<Rightarrow> JInt n
      | JStr h \<Rightarrow> (case hexstr_to_bytes h of Inl _ \<Rightarrow> v | Inr bs \<Rightarrow> JInt (from_bytes_big_signed bs)))"


text \<open>A two-step trace in the prefixed, hexadecimal format, with a \<open>gasCost\<close> of \<open>0xff\<close>.\<close>

definition prefixed_example :: "step list" where
  "prefixed_example =
     [\<lparr>pc = JStr ''0x0'', op = ''PUSH1'', depth = 1, gas = JStr ''0x5208'', gasCost = JStr ''0x3'',
       stack = [], memory = [], address = None, contractName = None, fn = None,
       jumpDepth = None, source = None\<rparr>,
      \<lparr>pc = JStr ''0x2'', op = ''SSTORE'', depth = 1, gas = JStr ''0x5205'', gasCost = JStr ''0xff'',
       stack = [JStr ''0x1f'', JStr ''0x0''], memory = [], address = None, contractName = None,
       fn = None, jumpDepth = None, source = None\<rparr>]"

subsection \<open>Properties of the library primitives\<close>

lemma is_hex_hexchar: "n < 16 \<Longrightarrow> is_hex (hexchar n)"
  by (simp add: is_hex_def hexval_def hexchar_def Let_def)

lemma is_hex_not_special:
  "is_hex c \<Longrightarrow> c \<noteq> CHR ''x'' \<and> c \<noteq> CHR ''X'' \<and> c \<noteq> CHR ''+'' \<and> c \<noteq> CHR ''-''"
  by (auto simp: is_hex_def hexval_def Let_def)

lemma is_hex_zero: "is_hex CHR ''0''"
  by (simp add: is_hex_def hexval_def)

lemma unhexlify_ok:
  "list_all is_hex p \<Longrightarrow> even (length p) \<Longrightarrow>
     \<exists>bs. unhexlify p = Inr bs \<and> 2 * length bs = length p"
proof (induction p rule: induct_list012)
  case 1
  then show ?case by simp
next
  case (2 x)
  then show ?case by simp
next
  case (3 a b cs)
  from "3.prems" have ha: "is_hex a" and hb: "is_hex b"
    and hc: "list_all is_hex cs" and ev: "even (length cs)" by simp_all
  from "3.IH"(1) [OF hc ev] obtain bs
    where bs: "unhexlify cs = Inr bs" "2 * length bs = length cs" by blast
  from ha hb obtain x y where "hexval a = Some x" "hexval b = Some y"
    unfolding is_hex_def by blast
  with bs show ?case by simp
qed

lemma length_hexlify: "length (hexlify bs) = 2 * length bs"
  by (induction bs) simp_all

lemma is_hex_hexchar_mod: "is_hex (hexchar (n mod 16))"
  by (rule is_hex_hexchar) simp

lemma hexlify_is_hex: "list_all is_hex (hexlify bs)"
  by (induction bs) (simp_all add: is_hex_hexchar_mod)

lemma all_hex_not_prefixed:
  "list_all is_hex s \<Longrightarrow> \<not> startswith s ''0x'' \<and> \<not> startswith s ''0X''"
proof (cases s)
  case Nil
  then show ?thesis by (simp add: startswith_def)
next
  case (Cons a t)
  assume h: "list_all is_hex s"
  show ?thesis
  proof (cases t)
    case Nil
    with Cons show ?thesis by (simp add: startswith_def)
  next
    case (Cons b u)
    with \<open>s = a # t\<close> h have "is_hex b" by simp
    then have "b \<noteq> CHR ''x'' \<and> b \<noteq> CHR ''X''" using is_hex_not_special by blast
    with Cons \<open>s = a # t\<close> show ?thesis by (simp add: startswith_def)
  qed
qed

lemma zfill_hex:
  assumes "list_all is_hex s" "length s \<le> 64"
  shows "length (zfill s 64) = 64 \<and> list_all is_hex (zfill s 64)"
proof (cases s)
  case Nil
  then show ?thesis by (simp add: zfill_def is_hex_zero list_all_iff)
next
  case (Cons c cs)
  with assms have "is_hex c" by simp
  then have "c \<noteq> CHR ''+'' \<and> c \<noteq> CHR ''-''" using is_hex_not_special by blast
  with Cons have "zfill s 64 = replicate (64 - length s) CHR ''0'' @ s"
    by (simp add: zfill_def)
  with assms show ?thesis by (auto simp: is_hex_zero list_all_iff)
qed

lemma hexstr_to_bytes_prefixed:
  assumes "startswith s ''0x''" "list_all is_hex (drop 2 s)"
  shows "\<exists>bs. hexstr_to_bytes s = Inr bs \<and> 2 * length bs \<le> length s - 1"
proof -
  from assms(1) have "length (take (length ''0x'') s) = length ''0x''"
    unfolding startswith_def by (rule arg_cong)
  then have len: "2 \<le> length s" by simp
  show ?thesis
  proof (cases "odd (length s)")
    case True
    have "list_all is_hex (CHR ''0'' # drop 2 s)" using assms(2) by (simp add: is_hex_zero)
    moreover have "even (length (CHR ''0'' # drop 2 s))" using True len by simp
    ultimately obtain bs where bs: "unhexlify (CHR ''0'' # drop 2 s) = Inr bs"
      "2 * length bs = length (CHR ''0'' # drop 2 s)"
      using unhexlify_ok by blast
    have "hexstr_to_bytes s = unhexlify (CHR ''0'' # drop 2 s)"
      using assms(1) True by (simp add: hexstr_to_bytes_def Let_def)
    with bs len show ?thesis by simp
  next
    case False
    have "even (length (drop 2 s))" using False len by simp
    with assms(2) obtain bs where bs: "unhexlify (drop 2 s) = Inr bs"
      "2 * length bs = length (drop 2 s)"
      using unhexlify_ok by blast
    have "hexstr_to_bytes s = unhexlify (drop 2 s)"
      using assms(1) False by (simp add: hexstr_to_bytes_def Let_def)
    with bs len show ?thesis by simp
  qed
qed

lemma fix_stack_entry_prefixed:
  assumes "prefixed_word e"
  shows "\<exists>v. fix_stack_entry e = Inr v \<and> fixed_word v"
proof -
  from assms obtain s where e: "e = JStr s" and p: "startswith s ''0x''"
    and l: "length s \<le> 66" and h: "list_all is_hex (drop 2 s)"
    by (cases e) auto
  from hexstr_to_bytes_prefixed [OF p h] obtain bs
    where bs: "hexstr_to_bytes s = Inr bs" "2 * length bs \<le> length s - 1" by blast
  let ?h = "hexlify bs"
  have "removeprefix ?h ''0x'' = ?h"
    using all_hex_not_prefixed [OF hexlify_is_hex] by (simp add: removeprefix_def)
  moreover have "length ?h \<le> 64" using bs(2) l by (simp add: length_hexlify)
  ultimately show ?thesis
    using zfill_hex [OF hexlify_is_hex, of bs] e bs(1)
    by (simp add: fix_stack_entry_def)
qed


lemma hexnum_digits:
  assumes "hexnum (JStr s)"
  shows "\<exists>ds. ds \<noteq> [] \<and> list_all is_hex ds
           \<and> (if startswith s ''0x'' \<or> startswith s ''0X'' then drop 2 s else s) = ds
           \<and> even (length s) = even (length ds)
           \<and> s \<noteq> [] \<and> hd s \<noteq> CHR ''-'' \<and> hd s \<noteq> CHR ''+''"
proof (cases "startswith s ''0x''")
  case True
  then have "length (take (length ''0x'') s) = length ''0x''"
    unfolding startswith_def by (rule arg_cong)
  then have len: "2 \<le> length s" by simp
  from True have "take (length ''0x'') s = ''0x''" unfolding startswith_def .
  then have "hd s = CHR ''0''" by (cases s) auto
  moreover from len have "s \<noteq> []" by auto
  ultimately show ?thesis using assms True len by (auto simp: Let_def)
next
  case False
  with assms have h: "s \<noteq> []" "list_all is_hex s" by (simp_all add: Let_def)
  then have "is_hex (hd s)" by (cases s) simp_all
  then have "hd s \<noteq> CHR ''-'' \<and> hd s \<noteq> CHR ''+''" using is_hex_not_special by blast
  with h False all_hex_not_prefixed [OF h(2)] show ?thesis by simp
qed

lemma hex_nat_Some: "ds \<noteq> [] \<Longrightarrow> list_all is_hex ds \<Longrightarrow> \<exists>n. hex_nat ds = Some n"
  by (simp add: hex_nat_def)

lemma is_hex_not_space: "is_hex c \<Longrightarrow> \<not> is_space c \<and> c \<noteq> CHR ''_''"
  by (auto simp: is_hex_def hexval_def is_space_def Let_def)

lemma dropWhile_head: "xs \<noteq> [] \<Longrightarrow> \<not> P (hd xs) \<Longrightarrow> dropWhile P xs = xs"
  by (cases xs) simp_all

lemma strip_id:
  assumes "s \<noteq> []" "\<not> is_space (hd s)" "\<not> is_space (last s)"
  shows "strip s = s"
proof -
  from assms(1,2) have a: "dropWhile is_space s = s" by (rule dropWhile_head)
  from assms(1) have r: "rev s \<noteq> []" and "hd (rev s) = last s" by (simp_all add: hd_rev)
  with assms(3) have "\<not> is_space (hd (rev s))" by simp
  with r have "dropWhile is_space (rev s) = rev s" by (rule dropWhile_head)
  with a show ?thesis by (simp add: strip_def)
qed

lemma ungroup_hex: "ds \<noteq> [] \<Longrightarrow> list_all is_hex ds \<Longrightarrow> ungroup ds = Some ds"
proof (induction ds rule: ungroup.induct)
  case 1
  then show ?case by simp
next
  case (2 c)
  then show ?case using is_hex_not_space by simp
next
  case (3 c d cs)
  then have "c \<noteq> CHR ''_''" "d \<noteq> CHR ''_''" using is_hex_not_space by auto
  with 3 show ?case by simp
qed

lemma hexnum_not_space:
  assumes "hexnum (JStr s)"
  shows "strip s = s"
proof -
  from hexnum_digits [OF assms] obtain ds where ds: "ds \<noteq> []" "list_all is_hex ds"
    "(if startswith s ''0x'' \<or> startswith s ''0X'' then drop 2 s else s) = ds"
    "s \<noteq> []" by blast
  have hd: "\<not> is_space (hd s)"
  proof (cases "startswith s ''0x'' \<or> startswith s ''0X''")
    case True
    then have "take 2 s = ''0x'' \<or> take 2 s = ''0X''" by (simp add: startswith_def numeral_2_eq_2)
    then have "hd s = CHR ''0''" using ds(4) by (cases s) auto
    then show ?thesis by (simp add: is_space_def)
  next
    case False
    with ds have "is_hex (hd s)" by (cases s) auto
    then show ?thesis using is_hex_not_space by blast
  qed
  have "last s = last ds"
  proof (cases "startswith s ''0x'' \<or> startswith s ''0X''")
    case True
    with ds(3) have "drop 2 s = ds" by simp
    with ds(1) show ?thesis by (metis last_drop drop_eq_Nil not_le)
  next
    case False
    with ds(3) show ?thesis by simp
  qed
  moreover from ds(1,2) have "is_hex (last ds)" by (simp add: list_all_iff)
  ultimately have "\<not> is_space (last s)" using is_hex_not_space by simp
  from strip_id [OF ds(4) hd this] show ?thesis .
qed

lemma hexnum_int16:
  assumes "hexnum v"
  shows "\<exists>n. int16 v = Inr n"
proof -
  from assms obtain s where v: "v = JStr s" by (cases v) auto
  from hexnum_digits [OF assms [unfolded v]] obtain ds where ds: "ds \<noteq> []" "list_all is_hex ds"
    "(if startswith s ''0x'' \<or> startswith s ''0X'' then drop 2 s else s) = ds"
    "s \<noteq> []" "hd s \<noteq> CHR ''-''" "hd s \<noteq> CHR ''+''" by blast
  from hex_nat_Some [OF ds(1,2)] obtain n where n: "hex_nat ds = Some n" by blast
  from ds(1,2) have "hd ds \<noteq> CHR ''_''" using is_hex_not_space by (cases ds) auto
  with ds(1) have "(case ds of c # cs \<Rightarrow> (if c = CHR ''_'' then cs else c # cs) | [] \<Rightarrow> []) = ds"
    by (cases ds) simp_all
  with ds(3) have "(if startswith s ''0x'' \<or> startswith s ''0X''
                then (case drop 2 s of
                        c # cs \<Rightarrow> (if c = CHR ''_'' then cs else c # cs)
                      | [] \<Rightarrow> [])
                else s) = ds"
    by (cases "startswith s ''0x'' \<or> startswith s ''0X''") simp_all
  with n ungroup_hex [OF ds(1,2)] have u: "int16_unsigned s = Inr (int n)"
    by (simp add: int16_unsigned_def Let_def)
  obtain c cs where s: "s = c # cs" using ds(4) by (cases s) auto
  from hexnum_not_space [OF assms [unfolded v]] have "strip s = c # cs" using s by simp
  with ds(5,6) s u v show ?thesis by simp
qed

lemma hexnum_HexBytes:
  assumes "hexnum v"
  shows "\<exists>bs. HexBytes v = Inr bs"
proof -
  from assms obtain s where v: "v = JStr s" by (cases v) auto
  from hexnum_digits [OF assms [unfolded v]] obtain ds where ds: "ds \<noteq> []" "list_all is_hex ds"
    "(if startswith s ''0x'' \<or> startswith s ''0X'' then drop 2 s else s) = ds"
    "even (length s) = even (length ds)" by blast
  let ?p = "if odd (length s) then CHR ''0'' # ds else ds"
  have "list_all is_hex ?p" using ds(2) by (simp add: is_hex_zero)
  moreover have "even (length ?p)" using ds(4) by simp
  ultimately obtain bs where "unhexlify ?p = Inr bs" using unhexlify_ok by blast
  moreover have "hexstr_to_bytes s = unhexlify ?p"
    using ds(3) by (simp add: hexstr_to_bytes_def Let_def)
  ultimately show ?thesis using v by simp
qed

lemma map_err_all:
  assumes "\<forall>x \<in> set xs. \<exists>y. f x = Inr y \<and> P y"
  shows "\<exists>ys. map_err f xs = Inr ys \<and> list_all P ys"
  using assms
proof (induction xs)
  case Nil
  then show ?case by simp
next
  case (Cons x xs)
  then obtain y ys where "f x = Inr y" "P y" "map_err f xs = Inr ys" "list_all P ys"
    by auto
  then show ?case by simp
qed

definition step_normal :: "step \<Rightarrow> bool" where
  "step_normal s = (list_all fixed_word (stack s) \<and> is_int (gas s) \<and> is_int (gasCost s) \<and> is_int (pc s))"

definition stack_input :: "bool \<Rightarrow> step \<Rightarrow> bool" where
  "stack_input fs s = (if fs then list_all prefixed_word (stack s) else list_all fixed_word (stack s))"

definition number_input :: "bool \<Rightarrow> step \<Rightarrow> bool" where
  "number_input fg s =
     (if fg then hexnum (gas s) \<and> (is_int (gasCost s) \<or> hexnum (gasCost s))
                 \<and> (is_int (pc s) \<or> hexnum (pc s))
      else is_int (gas s) \<and> is_int (gasCost s) \<and> is_int (pc s))"

lemma signed_gas_cost_hexnum:
  "hexnum v \<Longrightarrow> HexBytes v = Inr bs \<Longrightarrow> signed_gas_cost v = JInt (from_bytes_big_signed bs)"
  by (cases v) (simp_all add: signed_gas_cost_def)

lemma fix_step_ok:
  assumes st: "stack_input fs s" and nu: "number_input fg s"
  shows "\<exists>s'. fix_step fs fg s = (None, s') \<and> step_normal s'
            \<and> gasCost s' = (if fg then signed_gas_cost (gasCost s) else gasCost s)
            \<and> op s' = op s \<and> depth s' = depth s"
proof -
  obtain st' where st': "fix_stack_list fs (stack s) = Inr st'" "list_all fixed_word st'"
  proof (cases fs)
    case True
    with st have "\<forall>x \<in> set (stack s). \<exists>y. fix_stack_entry x = Inr y \<and> fixed_word y"
      using fix_stack_entry_prefixed by (auto simp: stack_input_def list_all_iff)
    from map_err_all [OF this] True that show ?thesis by (auto simp: fix_stack_list_def)
  next
    case False
    with st that show ?thesis by (simp add: stack_input_def fix_stack_list_def)
  qed
  show ?thesis
  proof (cases fg)
    case False
    with st' nu show ?thesis
      by (simp add: fix_step_def step_normal_def number_input_def)
  next
    case True
    with nu have g: "hexnum (gas s)" and c: "is_int (gasCost s) \<or> hexnum (gasCost s)"
      and p: "is_int (pc s) \<or> hexnum (pc s)" by (simp_all add: number_input_def)
    from hexnum_int16 [OF g] obtain gv where gv: "int16 (gas s) = Inr gv" by blast
    obtain cv where cv: "fix_gas_cost (gasCost s) = Inr cv" "is_int cv"
      "cv = signed_gas_cost (gasCost s)"
    proof (cases "gasCost s")
      case (JInt n)
      with that show ?thesis by (simp add: signed_gas_cost_def fix_gas_cost_def)
    next
      case (JStr h)
      with c have "hexnum (gasCost s)" by simp
      from hexnum_HexBytes [OF this] obtain bs where bs: "HexBytes (gasCost s) = Inr bs" by blast
      with signed_gas_cost_hexnum [OF \<open>hexnum (gasCost s)\<close> bs] JStr that show ?thesis
        by (simp add: fix_gas_cost_def)
    qed
    obtain pv where pv: "fix_pc (pc s) = Inr pv" "is_int pv"
    proof (cases "pc s")
      case (JInt n)
      with that show ?thesis by (simp add: fix_pc_def)
    next
      case (JStr h)
      with p have "hexnum (pc s)" by simp
      from hexnum_int16 [OF this] obtain n where "int16 (pc s) = Inr n" by blast
      with JStr that show ?thesis by (simp add: fix_pc_def)
    qed
    from True st' gv cv pv show ?thesis
      by (simp add: fix_step_def step_normal_def Let_def)
  qed
qed


lemma fix_steps_ok:
  assumes "list_all (stack_input fs) tr" "list_all (number_input fg) tr"
  shows "\<exists>tr'. fix_steps fs fg tr = (None, tr') \<and> length tr' = length tr
           \<and> list_all step_normal tr'
           \<and> (\<forall>i < length tr. gasCost (tr' ! i)
                  = (if fg then signed_gas_cost (gasCost (tr ! i)) else gasCost (tr ! i))
                \<and> op (tr' ! i) = op (tr ! i) \<and> depth (tr' ! i) = depth (tr ! i))"
  using assms
proof (induction tr)
  case Nil
  then show ?case by simp
next
  case (Cons s ss)
  then have "stack_input fs s" "number_input fg s" by simp_all
  from fix_step_ok [OF this] obtain s' where s': "fix_step fs fg s = (None, s')" "step_normal s'"
    "gasCost s' = (if fg then signed_gas_cost (gasCost s) else gasCost s)"
    "op s' = op s" "depth s' = depth s" by blast
  from Cons obtain ss' where ss': "fix_steps fs fg ss = (None, ss')" "length ss' = length ss"
    "list_all step_normal ss'"
    "\<forall>i < length ss. gasCost (ss' ! i)
                  = (if fg then signed_gas_cost (gasCost (ss ! i)) else gasCost (ss ! i))
                \<and> op (ss' ! i) = op (ss ! i) \<and> depth (ss' ! i) = depth (ss ! i)"
    by auto
  have "fix_steps fs fg (s # ss) = (None, s' # ss')" using s'(1) ss'(1) by simp
  moreover have "\<forall>i < length (s # ss). gasCost ((s' # ss') ! i)
                  = (if fg then signed_gas_cost (gasCost ((s # ss) ! i)) else gasCost ((s # ss) ! i))
                \<and> op ((s' # ss') ! i) = op ((s # ss) ! i) \<and> depth ((s' # ss') ! i) = depth ((s # ss) ! i)"
  proof (intro allI impI)
    fix i assume "i < length (s # ss)"
    then show "gasCost ((s' # ss') ! i)
                  = (if fg then signed_gas_cost (gasCost ((s # ss) ! i)) else gasCost ((s # ss) ! i))
                \<and> op ((s' # ss') ! i) = op ((s # ss) ! i) \<and> depth ((s' # ss') ! i) = depth ((s # ss) ! i)"
      using s'(3,4,5) ss'(4) by (cases i) simp_all
  qed
  ultimately show ?case using s'(2) ss'(2,3) by simp
qed

lemma fixed_word_not_prefixed: "fixed_word (JStr c) \<Longrightarrow> \<not> startswith c ''0x''"
  using all_hex_not_prefixed by simp

lemma detect_fixed: "list_all (\<lambda>s. list_all fixed_word (stack s)) tr \<Longrightarrow> \<not> detect_fix_stack tr"
proof (induction tr)
  case Nil
  then show ?case by simp
next
  case (Cons s ss)
  show ?case
  proof (cases "stack s")
    case Nil
    with Cons show ?thesis by simp
  next
    case (Cons e es)
    with Cons.prems have fw: "fixed_word e" by simp
    then obtain c where c: "e = JStr c" by (cases e) auto
    with fw have "\<not> startswith c ''0x''" using fixed_word_not_prefixed by blast
    with Cons.IH Cons.prems Cons c show ?thesis by simp
  qed
qed

lemma detect_prefixed:
  "list_all (\<lambda>s. list_all prefixed_word (stack s)) tr \<Longrightarrow> \<not> detect_fix_stack tr
     \<Longrightarrow> list_all (\<lambda>s. stack s = []) tr"
proof (induction tr)
  case Nil
  then show ?case by simp
next
  case (Cons s ss)
  show ?case
  proof (cases "stack s")
    case Nil
    with Cons show ?thesis by simp
  next
    case (Cons e es)
    with Cons.prems(1) have "prefixed_word e" by simp
    then obtain c where "e = JStr c" "startswith c ''0x''" by (cases e) auto
    with Cons Cons.prems(2) show ?thesis by simp
  qed
qed

lemma stack_input_detect:
  assumes "stack_format_prefixed tr \<or> stack_format_fixed tr"
  shows "list_all (stack_input (detect_fix_stack tr)) tr"
proof (cases "detect_fix_stack tr")
  case True
  with assms detect_fixed have "stack_format_prefixed tr"
    unfolding stack_format_fixed_def by blast
  with True show ?thesis by (simp add: stack_format_prefixed_def stack_input_def [abs_def])
next
  case False
  from assms show ?thesis
  proof
    assume "stack_format_prefixed tr"
    with False detect_prefixed have "list_all (\<lambda>s. stack s = []) tr"
      unfolding stack_format_prefixed_def by blast
    with False show ?thesis by (simp add: stack_input_def [abs_def] list_all_iff)
  next
    assume "stack_format_fixed tr"
    with False show ?thesis by (simp add: stack_format_fixed_def stack_input_def [abs_def])
  qed
qed

lemma number_input_first:
  assumes "numbers_native (s # ss) \<or> numbers_hex (s # ss)"
  shows "list_all (number_input (is_str (gas s))) (s # ss)"
  using assms
proof
  assume a: "numbers_native (s # ss)"
  then have "\<not> is_str (gas s)" by (cases "gas s") (simp_all add: numbers_native_def)
  with a show ?thesis by (simp add: numbers_native_def number_input_def [abs_def])
next
  assume a: "numbers_hex (s # ss)"
  then have "is_str (gas s)" by (cases "gas s") (simp_all add: numbers_hex_def)
  with a show ?thesis by (simp add: numbers_hex_def number_input_def [abs_def])
qed

lemma signed_gas_cost_int: "is_int v \<Longrightarrow> signed_gas_cost v = v"
  by (cases v) (simp_all add: signed_gas_cost_def)


text \<open>
  C3. After the format-fixing pass over a non-empty trace whose stack entries are all
  \<open>0x\<close>-prefixed words of at most 64 digits or all unprefixed 64-digit words, and whose
  numeric fields are all native integers or hexadecimal strings, no exception escapes,
  every stack entry is exactly 64 hexadecimal characters (so without \<open>0x\<close>), the fields
  \<open>gas\<close>, \<open>gasCost\<close> and \<open>pc\<close> are integers, and a hexadecimal \<open>gasCost\<close> has become the
  signed big-endian value of its bytes.
\<close>

theorem normalize_trace_canonical:
  assumes ne: "trace \<noteq> []"
    and st: "stack_format_prefixed trace \<or> stack_format_fixed trace"
    and nu: "numbers_native trace \<or> numbers_hex trace"
  shows "fst (normalize_trace trace) = None
         \<and> length (snd (normalize_trace trace)) = length trace
         \<and> list_all (\<lambda>s. list_all fixed_word (stack s)
                          \<and> is_int (gas s) \<and> is_int (gasCost s) \<and> is_int (pc s))
              (snd (normalize_trace trace))
         \<and> (\<forall>i < length trace.
               gasCost (snd (normalize_trace trace) ! i) = signed_gas_cost (gasCost (trace ! i)))"
proof -
  from ne obtain s ss where tr: "trace = s # ss" by (cases trace) auto
  let ?fs = "detect_fix_stack trace" and ?fg = "is_str (gas s)"
  have si: "list_all (stack_input ?fs) trace" using stack_input_detect [OF st] .
  have ni: "list_all (number_input ?fg) trace" using number_input_first nu tr by blast
  show ?thesis
  proof (cases "?fs \<or> ?fg")
    case True
    from fix_steps_ok [OF si ni] obtain tr' where tr': "fix_steps ?fs ?fg trace = (None, tr')"
      "length tr' = length trace" "list_all step_normal tr'"
      "\<forall>i < length trace. gasCost (tr' ! i)
                  = (if ?fg then signed_gas_cost (gasCost (trace ! i)) else gasCost (trace ! i))"
      by blast
    have nt: "normalize_trace trace = (None, tr')"
      using True tr tr'(1) by (simp add: normalize_trace_def Let_def)
    have "\<forall>i < length trace. gasCost (tr' ! i) = signed_gas_cost (gasCost (trace ! i))"
    proof (intro allI impI)
      fix i assume i: "i < length trace"
      show "gasCost (tr' ! i) = signed_gas_cost (gasCost (trace ! i))"
      proof (cases ?fg)
        case True
        with tr'(4) i show ?thesis by simp
      next
        case False
        from ni i have "number_input ?fg (trace ! i)" by (simp add: list_all_length)
        with False have "is_int (gasCost (trace ! i))" by (simp add: number_input_def)
        with False tr'(4) i signed_gas_cost_int show ?thesis by simp
      qed
    qed
    with nt tr'(2,3) show ?thesis by (simp add: step_normal_def [abs_def])
  next
    case False
    then have nt: "normalize_trace trace = (None, trace)"
      using tr by (simp add: normalize_trace_def Let_def)
    from False si ni have "list_all (\<lambda>s. list_all fixed_word (stack s)
                          \<and> is_int (gas s) \<and> is_int (gasCost s) \<and> is_int (pc s)) trace"
      by (simp add: stack_input_def number_input_def list_all_iff)
    moreover from this have "\<forall>i < length trace. gasCost (trace ! i) = signed_gas_cost (gasCost (trace ! i))"
      using signed_gas_cost_int by (simp add: list_all_length)
    ultimately show ?thesis using nt by simp
  qed
qed

theorem normalize_trace_canonical_witness:
  "prefixed_example \<noteq> [] \<and> stack_format_prefixed prefixed_example \<and> numbers_hex prefixed_example
   \<and> fst (normalize_trace prefixed_example) = None
   \<and> list_all (\<lambda>s. list_all fixed_word (stack s)
                    \<and> is_int (gas s) \<and> is_int (gasCost s) \<and> is_int (pc s))
        (snd (normalize_trace prefixed_example))
   \<and> gasCost (snd (normalize_trace prefixed_example) ! 1) = JInt (- 1)"
proof -
  have ne: "prefixed_example \<noteq> []" by (simp add: prefixed_example_def)
  have st: "stack_format_prefixed prefixed_example" by code_simp
  have nu: "numbers_hex prefixed_example" by code_simp
  have g: "signed_gas_cost (gasCost (prefixed_example ! 1)) = JInt (- 1)" by code_simp
  have l: "1 < length prefixed_example" by (simp add: prefixed_example_def)
  from normalize_trace_canonical [OF ne disjI1 [OF st] disjI2 [OF nu]] ne st nu g l
  show ?thesis by simp
qed


section \<open>Gas accountant: \<open>_get_trace_gas\<close>\<close>

text \<open>
  \<open>_step_compare(a, b)\<close>: equal depth and equal jump depth. The \<open>and\<close> reads
  \<open>jumpDepth\<close> only when the depths agree; a step without the key raises KeyError.
\<close>

definition step_compare :: "step \<Rightarrow> step \<Rightarrow> error + bool" where
  "step_compare a b =
     (if depth a \<noteq> depth b then Inr False
      else (case jumpDepth a of
              None \<Rightarrow> Inl KeyError
            | Some x \<Rightarrow> (case jumpDepth b of None \<Rightarrow> Inl KeyError | Some y \<Rightarrow> Inr (x = y))))"

text \<open>
  The test \<open>trace[i]["op"] == "SSTORE" and int(trace[i]["stack"][-2], 16) == 0\<close>; the stack
  is read only for an SSTORE.
\<close>

definition sstore_zero :: "step \<Rightarrow> error + bool" where
  "sstore_zero s =
     (if op s = ''SSTORE''
      then ebind (py_index (stack s) (- 2)) (\<lambda>v. ebind (int16 v) (\<lambda>n. Inr (n = 0)))
      else Inr False)"

text \<open>
  One iteration of the loop over \<open>range(start, stop)\<close>, on the accumulator
  \<open>(total_gas, internal_gas, is_internal)\<close>, in three parts. First the test of the
  frame: leaving the starting frame clears \<open>is_internal\<close> and, into a deeper call,
  takes the previous step's \<open>gasCost\<close> off \<open>internal_gas\<close>; coming back sets
  \<open>is_internal\<close> again.
\<close>

definition internal_after_compare ::
  "step list \<Rightarrow> nat \<Rightarrow> bool \<Rightarrow> bool \<Rightarrow> step \<Rightarrow> step \<Rightarrow> int \<Rightarrow> error + int" where
  "internal_after_compare trace i is_internal same ti ts internal_gas =
     (if is_internal \<and> \<not> same \<and> depth ti > depth ts
      then ebind (py_index trace (int i - 1)) (\<lambda>prev.
           ebind (num (gasCost prev)) (\<lambda>c. Inr (internal_gas - c)))
      else Inr internal_gas)"

definition flag_after_compare :: "bool \<Rightarrow> bool \<Rightarrow> bool" where
  "flag_after_compare is_internal same =
     (if is_internal \<and> \<not> same then False
      else if \<not> is_internal \<and> same then True
      else is_internal)"

text \<open>
  Then the step's own cost and the refunds: \<open>c\<close> is the step's \<open>gasCost\<close>, \<open>sz\<close> the
  SSTORE-to-zero test, \<open>opcode\<close> the step's \<open>op\<close>.
\<close>

definition add_step_gas :: "int \<times> int \<times> bool \<Rightarrow> int \<Rightarrow> bool \<Rightarrow> string \<Rightarrow> int \<times> int \<times> bool" where
  "add_step_gas acc c sz opcode =
     (case acc of (total_gas, internal_gas, is_internal) \<Rightarrow>
       (let total1 = total_gas + c;
            internal1 = (if is_internal then internal_gas + c else internal_gas);
            total2 = (if sz then total1 - 15000 else total1);
            internal2 = (if sz \<and> is_internal then internal1 - 15000 else internal1);
            total3 = (if opcode = ''SELFDESTRUCT'' then total2 - 24000 else total2);
            internal3 = (if opcode = ''SELFDESTRUCT'' \<and> is_internal
                         then internal2 - 24000 else internal2)
        in (total3, internal3, is_internal)))"

definition gas_iter ::
  "step list \<Rightarrow> nat \<Rightarrow> nat \<Rightarrow> int \<times> int \<times> bool \<Rightarrow> error + (int \<times> int \<times> bool)" where
  "gas_iter trace start i acc =
     (case acc of (total_gas, internal_gas, is_internal) \<Rightarrow>
        ebind (py_index trace (int i)) (\<lambda>ti.
        ebind (py_index trace (int start)) (\<lambda>ts.
        ebind (step_compare ti ts) (\<lambda>same.
        ebind (internal_after_compare trace i is_internal same ti ts internal_gas) (\<lambda>internal1.
        ebind (num (gasCost ti)) (\<lambda>c.
        ebind (sstore_zero ti) (\<lambda>sz.
          Inr (add_step_gas (total_gas, internal1, flag_after_compare is_internal same)
                 c sz (op ti)))))))))"

fun gas_loop ::
  "step list \<Rightarrow> nat \<Rightarrow> nat list \<Rightarrow> int \<times> int \<times> bool \<Rightarrow> error + (int \<times> int \<times> bool)" where
  "gas_loop trace start [] acc = Inr acc"
| "gas_loop trace start (i # rest) acc =
     (case gas_iter trace start i acc of
        Inl e \<Rightarrow> Inl e
      | Inr acc' \<Rightarrow> gas_loop trace start rest acc')"

text \<open>
  \<open>_get_trace_gas(start, stop)\<close> on the expanded trace, returning
  \<open>(internal_gas, total_gas)\<close>. The indices are natural numbers, as at every call site.
\<close>

definition get_trace_gas :: "step list \<Rightarrow> nat \<Rightarrow> nat \<Rightarrow> error + (int \<times> int)" where
  "get_trace_gas trace start stop =
     ebind (gas_loop trace start [start..<stop] (0, 0, True)) (\<lambda>(total_gas, internal_gas, _).
       if start > 0
       then ebind (py_index trace (int start)) (\<lambda>ts.
            ebind (py_index trace (int start - 1)) (\<lambda>prev.
              if depth ts > depth prev
              then ebind (num (gasCost prev)) (\<lambda>c. Inr (internal_gas + c, total_gas + c))
              else Inr (internal_gas, total_gas)))
       else Inr (internal_gas, total_gas))"

text \<open>
  The quantities the result is stated in, none of them through the code above: the cost
  of step \<open>i\<close>; the second stack item from the top; whether a step is an SSTORE whose
  second stack item from the top denotes zero; the flat refund a step earns (15000 for
  such an SSTORE, 24000 for a SELFDESTRUCT); whether two steps are in the same frame;
  whether step \<open>i\<close> is the first step of a deeper call left from the starting frame; and
  the cost of the calling step that is added back when the range starts inside a call
  just entered.
\<close>

definition cost :: "step list \<Rightarrow> nat \<Rightarrow> int" where
  "cost trace i = (case gasCost (trace ! i) of JInt n \<Rightarrow> n | JStr _ \<Rightarrow> 0)"

definition second_from_top :: "step \<Rightarrow> jval option" where
  "second_from_top s =
     (if 2 \<le> length (stack s) then Some (stack s ! (length (stack s) - 2)) else None)"

definition stores_zero :: "step \<Rightarrow> bool" where
  "stores_zero s =
     (op s = ''SSTORE'' \<and>
      (case second_from_top s of Some v \<Rightarrow> int16 v = Inr 0 | None \<Rightarrow> False))"

definition refund :: "step \<Rightarrow> int" where
  "refund s =
     (if stores_zero s then 15000 else 0)
     + (if op s = ''SELFDESTRUCT'' then 24000 else 0)"

definition same_frame :: "step \<Rightarrow> step \<Rightarrow> bool" where
  "same_frame a b = (depth a = depth b \<and> jumpDepth a = jumpDepth b)"

definition entering :: "step list \<Rightarrow> nat \<Rightarrow> nat \<Rightarrow> bool" where
  "entering trace start i =
     (start < i \<and> same_frame (trace ! (i - 1)) (trace ! start)
      \<and> \<not> same_frame (trace ! i) (trace ! start)
      \<and> depth (trace ! i) > depth (trace ! start))"

definition addback :: "step list \<Rightarrow> nat \<Rightarrow> int" where
  "addback trace start =
     (if start > 0 \<and> depth (trace ! start) > depth (trace ! (start - 1))
      then cost trace (start - 1) else 0)"


text \<open>
  A trace on which the accountant raises nothing: every step has an integer \<open>gasCost\<close>
  and a \<open>jumpDepth\<close>, every SSTORE a readable second stack item, and the indices are
  inside the trace.
\<close>

definition gas_step_ok :: "step \<Rightarrow> bool" where
  "gas_step_ok s =
     (is_int (gasCost s) \<and> jumpDepth s \<noteq> None
      \<and> (op s \<noteq> ''SSTORE'' \<or> (case second_from_top s of Some v \<Rightarrow> hexnum v | None \<Rightarrow> False)))"

definition gas_ready :: "step list \<Rightarrow> nat \<Rightarrow> nat \<Rightarrow> bool" where
  "gas_ready trace start stop =
     (list_all gas_step_ok trace \<and> start < length trace \<and> stop \<le> length trace)"

text \<open>
  A call that stores zero, stores one and self-destructs: steps 1 to 4 run at depth 1,
  entered from the CALL at step 0.
\<close>

definition gas_example :: "step list" where
  "gas_example =
     [\<lparr>pc = JInt 10, op = ''CALL'', depth = 0, gas = JInt 90000, gasCost = JInt 700,
       stack = [], memory = [], address = None, contractName = None, fn = None,
       jumpDepth = Some 0, source = None\<rparr>,
      \<lparr>pc = JInt 0, op = ''PUSH1'', depth = 1, gas = JInt 80000, gasCost = JInt 3,
       stack = [], memory = [], address = None, contractName = None, fn = None,
       jumpDepth = Some 0, source = None\<rparr>,
      \<lparr>pc = JInt 2, op = ''SSTORE'', depth = 1, gas = JInt 79997, gasCost = JInt 5000,
       stack = [JStr (replicate 64 CHR ''0''), JStr (replicate 63 CHR ''0'' @ ''1'')],
       memory = [], address = None, contractName = None, fn = None,
       jumpDepth = Some 0, source = None\<rparr>,
      \<lparr>pc = JInt 3, op = ''SSTORE'', depth = 1, gas = JInt 74997, gasCost = JInt 20000,
       stack = [JStr (replicate 63 CHR ''0'' @ ''1''), JStr (replicate 64 CHR ''0'')],
       memory = [], address = None, contractName = None, fn = None,
       jumpDepth = Some 0, source = None\<rparr>,
      \<lparr>pc = JInt 4, op = ''SELFDESTRUCT'', depth = 1, gas = JInt 54997, gasCost = JInt 5000,
       stack = [JStr (replicate 64 CHR ''0'')], memory = [], address = None,
       contractName = None, fn = None, jumpDepth = Some 0, source = None\<rparr>,
      \<lparr>pc = JInt 11, op = ''STOP'', depth = 0, gas = JInt 49997, gasCost = JInt 0,
       stack = [], memory = [], address = None, contractName = None, fn = None,
       jumpDepth = Some 0, source = None\<rparr>]"

subsection \<open>Closed form of the accountant's result\<close>

lemma ebind_Inr_iff: "ebind m f = Inr y \<longleftrightarrow> (\<exists>x. m = Inr x \<and> f x = Inr y)"
  by (cases m) (simp_all add: ebind_def)

lemma ebind_simps: "ebind (Inl e) f = Inl e" "ebind (Inr x) f = f x"
  by (simp_all add: ebind_def)

lemma py_index_nat: "py_index xs (int i) = Inr x \<longleftrightarrow> i < length xs \<and> x = xs ! i"
  by (auto simp: py_index_def Let_def)

lemma py_index_pred:
  "0 < i \<Longrightarrow> py_index xs (int i - 1) = Inr x \<longleftrightarrow> i - 1 < length xs \<and> x = xs ! (i - 1)"
proof -
  assume "0 < i"
  then obtain j where "i = Suc j" by (cases i) auto
  then show ?thesis using py_index_nat [of xs j x] by simp
qed

lemma num_Inr: "num v = Inr c \<longleftrightarrow> v = JInt c"
  by (cases v) auto

lemma step_compare_Inr: "step_compare a b = Inr c \<Longrightarrow> c = same_frame a b"
  by (auto simp: step_compare_def same_frame_def split: if_splits option.splits)

lemma step_compare_self: "step_compare a a = Inr c \<Longrightarrow> c"
  by (auto simp: step_compare_def split: if_splits option.splits)

lemma py_index_minus2:
  "py_index xs (- 2) = Inr v \<longleftrightarrow> 2 \<le> length xs \<and> v = xs ! (length xs - 2)"
proof -
  have "nat (int (length xs) - 2) = length xs - 2" by simp
  then show ?thesis by (auto simp: py_index_def Let_def)
qed

lemma sstore_zero_Inr:
  assumes "sstore_zero s = Inr b"
  shows "b = stores_zero s"
proof (cases "op s = ''SSTORE''")
  case False
  with assms show ?thesis by (simp add: sstore_zero_def stores_zero_def)
next
  case True
  with assms obtain v n where v: "py_index (stack s) (- 2) = Inr v"
    and n: "int16 v = Inr n" and b: "b = (n = 0)"
    by (auto simp: sstore_zero_def ebind_Inr_iff)
  from v have "second_from_top s = Some v" by (simp add: py_index_minus2 second_from_top_def)
  with True n b show ?thesis by (auto simp: stores_zero_def)
qed

lemma sstore_zero_refund:
  "sstore_zero s = Inr sz \<Longrightarrow>
     refund s = (if sz then 15000 else 0) + (if op s = ''SELFDESTRUCT'' then 24000 else 0)"
  using sstore_zero_Inr by (simp add: refund_def)

lemma flag_after_compare_eq: "flag_after_compare fl same = same"
  by (auto simp: flag_after_compare_def)

lemma internal_after_compare_Inr:
  assumes "internal_after_compare trace i fl same ti ts n = Inr n1" "0 < i \<or> same"
  shows "n1 = n - (if fl \<and> \<not> same \<and> depth ti > depth ts then cost trace (i - 1) else 0)"
proof (cases "fl \<and> \<not> same \<and> depth ti > depth ts")
  case False
  with assms(1) show ?thesis by (auto simp: internal_after_compare_def)
next
  case True
  with assms(2) have pos: "0 < i" by simp
  from True assms(1) have "ebind (py_index trace (int i - 1)) (\<lambda>prev.
           ebind (num (gasCost prev)) (\<lambda>c. Inr (n - c))) = Inr n1"
    by (simp add: internal_after_compare_def)
  then obtain pc where "gasCost (trace ! (i - 1)) = JInt pc" "n1 = n - pc"
    by (auto simp: ebind_Inr_iff py_index_pred [OF pos] num_Inr)
  with True show ?thesis by (simp add: cost_def)
qed

lemma add_step_gas_eq:
  "add_step_gas (t, n, fl) c sz opc =
     (t + c - ((if sz then 15000 else 0) + (if opc = ''SELFDESTRUCT'' then 24000 else 0)),
      n + (if fl then c - ((if sz then 15000 else 0) + (if opc = ''SELFDESTRUCT'' then 24000 else 0)) else 0),
      fl)"
  by (simp add: add_step_gas_def Let_def)

lemma gas_iter_Inr:
  assumes r: "gas_iter trace start i (t, n, fl) = Inr (t', n', fl')"
    and le: "start \<le> i"
  shows "fl' = same_frame (trace ! i) (trace ! start)
       \<and> t' = t + cost trace i - refund (trace ! i)
       \<and> n' = n + (if fl' then cost trace i - refund (trace ! i) else 0)
                 - (if fl \<and> \<not> fl' \<and> depth (trace ! i) > depth (trace ! start)
                    then cost trace (i - 1) else 0)
       \<and> i < length trace"
proof -
  from r have "\<exists>ti. py_index trace (int i) = Inr ti \<and> (\<exists>ts. py_index trace (int start) = Inr ts
      \<and> (\<exists>same. step_compare ti ts = Inr same
      \<and> (\<exists>internal1. internal_after_compare trace i fl same ti ts n = Inr internal1
      \<and> (\<exists>c. num (gasCost ti) = Inr c
      \<and> (\<exists>sz. sstore_zero ti = Inr sz
      \<and> Inr (add_step_gas (t, internal1, flag_after_compare fl same) c sz (op ti))
          = (Inr (t', n', fl') :: error + (int \<times> int \<times> bool)))))))"
    by (simp only: gas_iter_def prod.case ebind_Inr_iff)
  then obtain ti ts same internal1 c sz where
    ti: "py_index trace (int i) = Inr ti" and ts: "py_index trace (int start) = Inr ts"
    and same: "step_compare ti ts = Inr same"
    and i1: "internal_after_compare trace i fl same ti ts n = Inr internal1"
    and c: "num (gasCost ti) = Inr c"
    and sz: "sstore_zero ti = Inr sz"
    and res: "add_step_gas (t, internal1, flag_after_compare fl same) c sz (op ti) = (t', n', fl')"
    by blast
  from ti have il: "i < length trace" and tie: "ti = trace ! i" by (simp_all add: py_index_nat)
  from ts have tse: "ts = trace ! start" by (simp add: py_index_nat)
  have sf: "same = same_frame (trace ! i) (trace ! start)"
    using step_compare_Inr [OF same] tie tse by simp
  have co: "cost trace i = c" using c tie by (simp add: cost_def num_Inr)
  have rf: "refund (trace ! i) = (if sz then 15000 else 0)
              + (if op (trace ! i) = ''SELFDESTRUCT'' then 24000 else 0)"
    using sstore_zero_refund [OF sz] tie by simp
  have "0 < i \<or> same"
  proof (cases "i = start")
    case True
    with tie tse same step_compare_self show ?thesis by auto
  next
    case False
    with le show ?thesis by simp
  qed
  from internal_after_compare_Inr [OF i1 this]
  have i1': "internal1 = n - (if fl \<and> \<not> same \<and> depth (trace ! i) > depth (trace ! start)
                    then cost trace (i - 1) else 0)"
    using tie tse by simp
  have "add_step_gas (t, internal1, same) c sz (op ti)
          = (t + c - refund (trace ! i),
             internal1 + (if same then c - refund (trace ! i) else 0), same)"
    by (simp only: add_step_gas_eq rf tie)
  with res have "(t', n', fl') = (t + c - refund (trace ! i),
             internal1 + (if same then c - refund (trace ! i) else 0), same)"
    by (simp only: flag_after_compare_eq)
  then have "t' = t + c - refund (trace ! i)"
    "n' = internal1 + (if same then c - refund (trace ! i) else 0)" "fl' = same"
    by (simp_all only: prod.inject)
  then show ?thesis unfolding i1' sf co [symmetric] using il by simp
qed


lemma gas_loop_Inr:
  assumes "gas_loop trace start [a..<b] (t, n, fl) = Inr (t', n', fl')"
    and "start \<le> a"
    and "fl = (a = start \<or> same_frame (trace ! (a - 1)) (trace ! start))"
  shows "t' = t + (\<Sum>i\<leftarrow>[a..<b]. cost trace i - refund (trace ! i))
       \<and> n' = n + (\<Sum>i\<leftarrow>[a..<b]. if same_frame (trace ! i) (trace ! start)
                                    then cost trace i - refund (trace ! i) else 0)
                 - (\<Sum>i\<leftarrow>[a..<b]. if entering trace start i then cost trace (i - 1) else 0)"
  using assms
proof (induction "b - a" arbitrary: a t n fl)
  case 0
  then show ?case by simp
next
  case (Suc k)
  then have ab: "a < b" by simp
  then have upt: "[a..<b] = a # [Suc a..<b]" by (rule upt_conv_Cons)
  from Suc.prems(1) obtain acc where it: "gas_iter trace start a (t, n, fl) = Inr acc"
    and lp: "gas_loop trace start [Suc a..<b] acc = Inr (t', n', fl')"
    unfolding upt by (cases "gas_iter trace start a (t, n, fl)") simp_all
  obtain t1 n1 fl1 where acc: "acc = (t1, n1, fl1)" by (cases acc) auto
  from gas_iter_Inr [OF it [unfolded acc] Suc.prems(2)]
  have fl1: "fl1 = same_frame (trace ! a) (trace ! start)"
    and t1: "t1 = t + cost trace a - refund (trace ! a)"
    and n1: "n1 = n + (if fl1 then cost trace a - refund (trace ! a) else 0)
                 - (if fl \<and> \<not> fl1 \<and> depth (trace ! a) > depth (trace ! start)
                    then cost trace (a - 1) else 0)"
    by simp_all
  have ent: "(fl \<and> \<not> fl1 \<and> depth (trace ! a) > depth (trace ! start)) = entering trace start a"
  proof (cases "a = start")
    case True
    then have "fl1" using fl1 by (simp add: same_frame_def)
    with True show ?thesis by (simp add: entering_def)
  next
    case False
    with Suc.prems(2) have "start < a" by simp
    with False Suc.prems(3) fl1 show ?thesis by (simp add: entering_def)
  qed
  have k: "k = b - Suc a" using Suc.hyps(2) by simp
  have inv: "fl1 = (Suc a = start \<or> same_frame (trace ! (Suc a - 1)) (trace ! start))"
    using fl1 Suc.prems(2) by simp
  from Suc.hyps(1) [OF k lp [unfolded acc] _ inv] Suc.prems(2)
  have "t' = t1 + (\<Sum>i\<leftarrow>[Suc a..<b]. cost trace i - refund (trace ! i))"
    "n' = n1 + (\<Sum>i\<leftarrow>[Suc a..<b]. if same_frame (trace ! i) (trace ! start)
                                    then cost trace i - refund (trace ! i) else 0)
                 - (\<Sum>i\<leftarrow>[Suc a..<b]. if entering trace start i then cost trace (i - 1) else 0)"
    by simp_all
  moreover from n1 have "n1 = n + (if fl1 then cost trace a - refund (trace ! a) else 0)
                 - (if entering trace start a then cost trace (a - 1) else 0)"
    by (simp only: ent)
  then have "n1 = n + (if same_frame (trace ! a) (trace ! start)
                        then cost trace a - refund (trace ! a) else 0)
                 - (if entering trace start a then cost trace (a - 1) else 0)"
    by (simp only: fl1)
  ultimately show ?case unfolding upt t1 by simp
qed

lemma addback_Inr:
  assumes "(if start > 0
       then ebind (py_index trace (int start)) (\<lambda>ts.
            ebind (py_index trace (int start - 1)) (\<lambda>prev.
              if depth ts > depth prev
              then ebind (num (gasCost prev)) (\<lambda>c. Inr (n + c, t + c))
              else Inr (n, t)))
       else Inr (n, t)) = Inr (ig, tg)"
  shows "ig = n + addback trace start \<and> tg = t + addback trace start"
proof (cases "start > 0")
  case False
  with assms show ?thesis by (simp add: addback_def)
next
  case True
  with assms obtain ts prev where ts: "ts = trace ! start" and prev: "prev = trace ! (start - 1)"
    and r: "(if depth ts > depth prev
              then ebind (num (gasCost prev)) (\<lambda>c. Inr (n + c, t + c))
              else Inr (n, t)) = Inr (ig, tg)"
    by (auto simp: ebind_Inr_iff py_index_nat py_index_pred)
  show ?thesis
  proof (cases "depth ts > depth prev")
    case False
    with r True ts prev show ?thesis by (simp add: addback_def)
  next
    case dp: True
    with r obtain c where "gasCost prev = JInt c" "ig = n + c" "tg = t + c"
      by (auto simp: ebind_Inr_iff num_Inr)
    with dp True ts prev show ?thesis by (simp add: addback_def cost_def)
  qed
qed

lemma get_trace_gas_Inr:
  assumes "get_trace_gas trace start stop = Inr (ig, tg)"
  shows "tg = (\<Sum>i\<leftarrow>[start..<stop]. cost trace i - refund (trace ! i)) + addback trace start
       \<and> ig = (\<Sum>i\<leftarrow>[start..<stop]. if same_frame (trace ! i) (trace ! start)
                                       then cost trace i - refund (trace ! i) else 0)
              - (\<Sum>i\<leftarrow>[start..<stop]. if entering trace start i then cost trace (i - 1) else 0)
              + addback trace start"
proof -
  from assms obtain acc where lp: "gas_loop trace start [start..<stop] (0, 0, True) = Inr acc"
    and fin: "(case acc of (total_gas, internal_gas, _) \<Rightarrow>
       if start > 0
       then ebind (py_index trace (int start)) (\<lambda>ts.
            ebind (py_index trace (int start - 1)) (\<lambda>prev.
              if depth ts > depth prev
              then ebind (num (gasCost prev)) (\<lambda>c. Inr (internal_gas + c, total_gas + c))
              else Inr (internal_gas, total_gas)))
       else Inr (internal_gas, total_gas)) = Inr (ig, tg)"
    unfolding get_trace_gas_def ebind_Inr_iff by blast
  obtain t n fl where acc: "acc = (t, n, fl)" by (cases acc) auto
  from gas_loop_Inr [OF lp [unfolded acc]]
  have "t = (\<Sum>i\<leftarrow>[start..<stop]. cost trace i - refund (trace ! i))"
    "n = (\<Sum>i\<leftarrow>[start..<stop]. if same_frame (trace ! i) (trace ! start)
                                       then cost trace i - refund (trace ! i) else 0)
              - (\<Sum>i\<leftarrow>[start..<stop]. if entering trace start i then cost trace (i - 1) else 0)"
    by simp_all
  moreover from fin [unfolded acc prod.case] have "ig = n + addback trace start \<and> tg = t + addback trace start"
    by (rule addback_Inr)
  ultimately show ?thesis by simp
qed


lemma py_index_pred_ok:
  assumes "i < length xs"
  shows "\<exists>x. py_index xs (int i - 1) = Inr x \<and> x \<in> set xs"
proof (cases i)
  case 0
  with assms have "py_index xs (int i - 1) = Inr (xs ! (length xs - 1))"
    by (simp add: py_index_def Let_def nat_diff_distrib')
  with assms show ?thesis by simp
next
  case (Suc j)
  with assms py_index_nat [of xs j "xs ! j"] show ?thesis by simp
qed

lemma gas_step_ok_D:
  assumes "gas_step_ok s"
  shows "\<exists>c. num (gasCost s) = Inr c" "\<exists>d. jumpDepth s = Some d" "\<exists>b. sstore_zero s = Inr b"
proof -
  from assms show "\<exists>c. num (gasCost s) = Inr c" by (cases "gasCost s") (simp_all add: gas_step_ok_def)
  from assms show "\<exists>d. jumpDepth s = Some d" by (simp add: gas_step_ok_def)
  show "\<exists>b. sstore_zero s = Inr b"
  proof (cases "op s = ''SSTORE''")
    case False
    then have "sstore_zero s = Inr False" by (simp add: sstore_zero_def)
    then show ?thesis by blast
  next
    case True
    with assms obtain v where v: "second_from_top s = Some v" and h: "hexnum v"
      by (auto simp: gas_step_ok_def split: option.splits)
    from v have "py_index (stack s) (- 2) = Inr v"
      by (simp add: py_index_minus2 second_from_top_def split: if_splits)
    moreover from hexnum_int16 [OF h] obtain n where "int16 v = Inr n" by blast
    ultimately show ?thesis using True by (simp add: sstore_zero_def ebind_simps)
  qed
qed

lemma step_compare_ok:
  assumes "gas_step_ok a" "gas_step_ok b"
  shows "\<exists>c. step_compare a b = Inr c"
  using gas_step_ok_D(2) [OF assms(1)] gas_step_ok_D(2) [OF assms(2)]
  by (auto simp: step_compare_def)

lemma internal_after_compare_ok:
  assumes "list_all gas_step_ok trace" "i < length trace"
  shows "\<exists>n1. internal_after_compare trace i fl same ti ts n = Inr n1"
proof -
  from py_index_pred_ok [OF assms(2)] obtain prev
    where p: "py_index trace (int i - 1) = Inr prev" "prev \<in> set trace" by blast
  with assms(1) have "gas_step_ok prev" by (simp add: list_all_iff)
  from gas_step_ok_D(1) [OF this] obtain c where "num (gasCost prev) = Inr c" by blast
  with p(1) show ?thesis by (simp add: internal_after_compare_def ebind_simps)
qed

lemma gas_iter_ok:
  assumes ok: "list_all gas_step_ok trace" and i: "i < length trace" and s: "start < length trace"
  shows "\<exists>acc'. gas_iter trace start i acc = Inr acc'"
proof -
  obtain t n fl where acc: "acc = (t, n, fl)" by (cases acc) auto
  have ti: "py_index trace (int i) = Inr (trace ! i)" using i by (simp add: py_index_nat)
  have ts: "py_index trace (int start) = Inr (trace ! start)" using s by (simp add: py_index_nat)
  from ok i s have oki: "gas_step_ok (trace ! i)" and oks: "gas_step_ok (trace ! start)"
    by (simp_all add: list_all_length)
  from step_compare_ok [OF oki oks] obtain same
    where same: "step_compare (trace ! i) (trace ! start) = Inr same" by blast
  from internal_after_compare_ok [OF ok i] obtain n1
    where n1: "internal_after_compare trace i fl same (trace ! i) (trace ! start) n = Inr n1"
    by blast
  from gas_step_ok_D(1) [OF oki] obtain c where c: "num (gasCost (trace ! i)) = Inr c" by blast
  from gas_step_ok_D(3) [OF oki] obtain sz where sz: "sstore_zero (trace ! i) = Inr sz" by blast
  show ?thesis unfolding acc gas_iter_def prod.case
    by (simp add: ti ts same n1 c sz ebind_simps del: split_paired_Ex)
qed

lemma gas_loop_ok:
  assumes "list_all gas_step_ok trace" "start < length trace" "\<forall>i \<in> set ixs. i < length trace"
  shows "\<exists>acc'. gas_loop trace start ixs acc = Inr acc'"
  using assms(3)
proof (induction ixs arbitrary: acc)
  case Nil
  then show ?case by (simp del: split_paired_Ex)
next
  case (Cons i ixs)
  then have "i < length trace" by simp
  from gas_iter_ok [OF assms(1) this assms(2)] obtain acc1
    where "gas_iter trace start i acc = Inr acc1" by blast
  moreover from Cons obtain acc2 where "gas_loop trace start ixs acc1 = Inr acc2" by fastforce
  ultimately show ?case by (simp del: split_paired_Ex)
qed

lemma get_trace_gas_ok:
  assumes "gas_ready trace start stop"
  shows "\<exists>ig tg. get_trace_gas trace start stop = Inr (ig, tg)"
proof -
  from assms have ok: "list_all gas_step_ok trace" and s: "start < length trace"
    and e: "stop \<le> length trace" by (simp_all add: gas_ready_def)
  from e have "\<forall>i \<in> set [start..<stop]. i < length trace" by simp
  from gas_loop_ok [OF ok s this] obtain acc
    where lp: "gas_loop trace start [start..<stop] (0, 0, True) = Inr acc" by blast
  obtain t n fl where acc: "acc = (t, n, fl)" by (cases acc) auto
  have ts: "py_index trace (int start) = Inr (trace ! start)" using s by (simp add: py_index_nat)
  from py_index_pred_ok [OF s] obtain prev
    where p: "py_index trace (int start - 1) = Inr prev" "prev \<in> set trace" by blast
  with ok have "gas_step_ok prev" by (simp add: list_all_iff)
  from gas_step_ok_D(1) [OF this] obtain c where c: "num (gasCost prev) = Inr c" by blast
  show ?thesis unfolding get_trace_gas_def lp acc
    by (simp add: ebind_simps ts p(1) c)
qed

text \<open>
  What "denotes zero" is on a normalised stack word: all 64 digits are \<open>0\<close>.
\<close>

lemma hexval_zero: "is_hex c \<Longrightarrow> (the (hexval c) = 0) = (c = CHR ''0'')"
proof
  assume h: "is_hex c" and z: "the (hexval c) = 0"
  then have "of_char c = (48 :: nat)"
    by (auto simp: is_hex_def hexval_def Let_def split: if_splits)
  then have "(of_char c :: nat) = of_char CHR ''0''" by simp
  then show "c = CHR ''0''" by (simp only: of_char_eq_iff)
next
  assume "c = CHR ''0''"
  then show "the (hexval c) = 0" by (simp add: hexval_def)
qed

lemma foldl_hex_zero:
  "list_all is_hex w \<Longrightarrow>
     (foldl (\<lambda>a c. 16 * a + the (hexval c)) a w = (0 :: nat)) = (a = 0 \<and> w = replicate (length w) CHR ''0'')"
proof (induction w arbitrary: a)
  case Nil
  then show ?case by simp
next
  case (Cons c w)
  then have "is_hex c" "list_all is_hex w" by simp_all
  with Cons.IH [of "16 * a + the (hexval c)"] hexval_zero [of c] show ?case by auto
qed

lemma int16_all_hex:
  assumes "w \<noteq> []" "list_all is_hex w"
  shows "int16 (JStr w) = Inr (int (foldl (\<lambda>a c. 16 * a + the (hexval c)) 0 w))"
proof -
  obtain c cs where w: "w = c # cs" using assms(1) by (cases w) auto
  from assms have h: "is_hex (hd w)" "is_hex (last w)" by (simp_all add: list_all_iff)
  then have "strip w = w" using strip_id [OF assms(1)] is_hex_not_space by blast
  moreover from h(1) have "c \<noteq> CHR ''-''" "c \<noteq> CHR ''+''" using is_hex_not_special w by auto
  moreover have "int16_unsigned w = Inr (int (foldl (\<lambda>a c. 16 * a + the (hexval c)) 0 w))"
    using all_hex_not_prefixed [OF assms(2)] ungroup_hex [OF assms] assms
    by (simp add: int16_unsigned_def hex_nat_def Let_def)
  ultimately show ?thesis using w by simp
qed

lemma int16_word_zero:
  assumes "fixed_word (JStr w)"
  shows "(int16 (JStr w) = Inr 0) = (w = replicate 64 CHR ''0'')"
proof -
  from assms have l: "length w = 64" and h: "list_all is_hex w" by simp_all
  then have "w \<noteq> []" by auto
  from int16_all_hex [OF this h] foldl_hex_zero [OF h, of 0] l show ?thesis by simp
qed

lemma stores_zero_word:
  assumes "second_from_top s = Some (JStr w)" "fixed_word (JStr w)"
  shows "stores_zero s = (op s = ''SSTORE'' \<and> w = replicate 64 CHR ''0'')"
  using assms int16_word_zero [OF assms(2)] by (simp add: stores_zero_def)

text \<open>
  C5. Whenever \<open>_get_trace_gas(start, stop)\<close> returns, the total is the sum over the range
  of each step's \<open>gasCost\<close> less its flat refund: 15000 for an SSTORE whose second stack
  item from the top denotes zero (on a normalised word: is all zeros), read from the
  step alone, and 24000 for a SELFDESTRUCT. The internal figure is the same sum over the
  steps in the starting frame, less the cost of each step from which a deeper call is
  entered. When \<open>start > 0\<close> and the step at \<open>start\<close> is deeper than the one before it,
  that previous step's \<open>gasCost\<close> is added to both figures. On a well-formed trace the
  function does return.
\<close>

theorem get_trace_gas_refunds:
  "(gas_ready trace start stop \<longrightarrow> (\<exists>ig tg. get_trace_gas trace start stop = Inr (ig, tg)))
   \<and> (\<forall>ig tg. get_trace_gas trace start stop = Inr (ig, tg) \<longrightarrow>
         tg = (\<Sum>i\<leftarrow>[start..<stop]. cost trace i - refund (trace ! i)) + addback trace start
       \<and> ig = (\<Sum>i\<leftarrow>[start..<stop]. if same_frame (trace ! i) (trace ! start)
                                       then cost trace i - refund (trace ! i) else 0)
              - (\<Sum>i\<leftarrow>[start..<stop]. if entering trace start i then cost trace (i - 1) else 0)
              + addback trace start)
   \<and> (\<forall>s w. second_from_top s = Some (JStr w) \<longrightarrow> fixed_word (JStr w) \<longrightarrow>
         refund s = (if op s = ''SSTORE'' \<and> w = replicate 64 CHR ''0'' then 15000 else 0)
                    + (if op s = ''SELFDESTRUCT'' then 24000 else 0))"
proof (intro conjI allI impI)
  assume "gas_ready trace start stop"
  then show "\<exists>ig tg. get_trace_gas trace start stop = Inr (ig, tg)" by (rule get_trace_gas_ok)
next
  fix ig tg assume r: "get_trace_gas trace start stop = Inr (ig, tg)"
  from get_trace_gas_Inr [OF r]
  show "tg = (\<Sum>i\<leftarrow>[start..<stop]. cost trace i - refund (trace ! i)) + addback trace start"
    and "ig = (\<Sum>i\<leftarrow>[start..<stop]. if same_frame (trace ! i) (trace ! start)
                                       then cost trace i - refund (trace ! i) else 0)
              - (\<Sum>i\<leftarrow>[start..<stop]. if entering trace start i then cost trace (i - 1) else 0)
              + addback trace start"
    by simp_all
next
  fix s w assume "second_from_top s = Some (JStr w)" "fixed_word (JStr w)"
  from stores_zero_word [OF this]
  show "refund s = (if op s = ''SSTORE'' \<and> w = replicate 64 CHR ''0'' then 15000 else 0)
                    + (if op s = ''SELFDESTRUCT'' then 24000 else 0)"
    by (simp add: refund_def)
qed

theorem get_trace_gas_refunds_witness:
  "gas_ready gas_example 1 5
   \<and> get_trace_gas gas_example 1 5 = Inr (- 8297, - 8297)
   \<and> (\<Sum>i\<leftarrow>[1..<5]. cost gas_example i - refund (gas_example ! i)) + addback gas_example 1 = - 8297
   \<and> stores_zero (gas_example ! 2) \<and> refund (gas_example ! 2) = 15000
   \<and> \<not> stores_zero (gas_example ! 3) \<and> refund (gas_example ! 3) = 0
   \<and> refund (gas_example ! 4) = 24000
   \<and> addback gas_example 1 = 700"
proof -
  have r: "gas_ready gas_example 1 5" by code_simp
  have v: "get_trace_gas gas_example 1 5 = Inr (- 8297, - 8297)" by code_simp
  have a: "stores_zero (gas_example ! 2)" "refund (gas_example ! 2) = 15000"
    "\<not> stores_zero (gas_example ! 3)" "refund (gas_example ! 3) = 0"
    "refund (gas_example ! 4) = 24000" "addback gas_example 1 = 700" by code_simp+
  from get_trace_gas_refunds [of gas_example 1 5] r v a show ?thesis by simp
qed

section \<open>Trace expander: \<open>_expand_trace\<close>\<close>

subsection \<open>Collaborators outside this module\<close>

text \<open>
  One value of a contract's \<open>pcMap\<close>: the keys the expander reads, \<open>None\<close> when the key
  is absent.
\<close>

record pc_entry =
  pe_op :: string
  pe_path :: "string option"
  pe_offset :: "(int \<times> int) option"
  pe_fn :: "string option"
  pe_jump :: "string option"
  pe_dev :: "string option"
  pe_statement :: "int option"
  pe_branch :: "int option"

text \<open>
  A contract method object: its \<open>_input_sig\<close>, the number of ABI outputs, and its two
  decoders, \<open>None\<close> when the decoder raises. Decoded values are kept as their rendering.
\<close>

record fn_obj =
  input_sig :: string
  n_outputs :: nat
  decode_input :: "nat list \<Rightarrow> string option"
  decode_output :: "nat list \<Rightarrow> string option"

text \<open>
  What \<open>state._find_contract\<close> returns, as far as \<open>_get_last_map\<close> reads it:
  \<open>_name\<close>, \<open>get_method\<close>, \<open>get_method_object\<close>, the build's \<open>pcMap\<close>,
  \<open>allSourcePaths\<close> and \<open>language\<close>, and whether \<open>_project\<close> is a \<open>Project\<close>.
\<close>

record contract =
  c_name :: string
  get_method :: "string \<Rightarrow> string option"
  get_method_object :: "string \<Rightarrow> fn_obj option"
  c_pcMap :: "(int \<Rightarrow> pc_entry option) option"
  c_allSourcePaths :: "(string \<Rightarrow> string option) option"
  c_language :: "string option"
  c_in_project :: bool

text \<open>
  The functions of other modules that the expander calls, taken as parameters: the
  contract registry (\<open>state._find_contract\<close>), \<open>brownie.convert.EthAddress\<close> and
  \<open>Wei\<close> (which validate and can raise), and \<open>eth_abi.decode(["string"], _)\<close>
  (\<open>None\<close> when it raises).
\<close>

record registry =
  find_contract :: "string \<Rightarrow> contract option"
  EthAddress :: "string \<Rightarrow> error + string"
  Wei :: "string \<Rightarrow> error + int"
  decode_string :: "nat list \<Rightarrow> string option"

subsection \<open>State of the expansion\<close>

text \<open>
  One value of \<open>last_map\<close>: the dict that \<open>_get_last_map\<close> builds for a call depth.
  \<open>lm_function\<close> is \<open>None\<close> when the key is absent or holds \<open>None\<close>;
  \<open>lm_active_branches\<close> is \<open>None\<close> when the key is absent.
\<close>

record last_entry =
  lm_address :: string
  lm_jumpDepth :: int
  lm_name :: "string option"
  lm_coverage :: bool
  lm_function :: "fn_obj option"
  lm_internal_calls :: "string list"
  lm_path_map :: "(string \<Rightarrow> string option) option"
  lm_pc_map :: "(int \<Rightarrow> pc_entry option) option"
  lm_active_branches :: "int list option"

text \<open>One dict of \<open>self._subcalls\<close>; an optional key is \<open>None\<close> while absent.\<close>

record subcall =
  sc_from :: string
  sc_to :: string
  sc_op :: string
  sc_value :: "int option"
  sc_function :: "string option"
  sc_inputs :: "string option"
  sc_calldata :: "string option"
  sc_returndata :: "string option"
  sc_return_value :: "string option option"
  sc_revert_msg :: "string option"
  sc_selfdestruct :: bool

text \<open>
  Everything the loop of \<open>_expand_trace\<close> mutates: the trace (the list is shared with
  \<open>self._raw_trace\<close>), \<open>last_map\<close>, \<open>self._subcalls\<close>, \<open>self._new_contracts\<close>,
  \<open>self._internal_transfers\<close> and \<open>coverage_eval\<close>, the latter as the list of hits
  (contract name, path, set index 0/1/2, statement or branch id).
\<close>

record expansion =
  x_trace :: "step list"
  x_last_map :: "int \<Rightarrow> last_entry option"
  x_subcalls :: "subcall list"
  x_new_contracts :: "string list"
  x_internal_transfers :: "(string \<times> string \<times> int) list"
  x_coverage_eval :: "(string option \<times> string \<times> nat \<times> int) list"

text \<open>
  How a statement of the loop body ends: control goes on to the next statement, the
  iteration ends with \<open>continue\<close>, or an exception escapes the loop.
\<close>

datatype flow = Next | Continue | Raise error

type_synonym phase = "expansion \<Rightarrow> flow \<times> expansion"

definition seq :: "phase \<Rightarrow> phase \<Rightarrow> phase" where
  "seq f g x = (case f x of (Next, x') \<Rightarrow> g x' | (Continue, x') \<Rightarrow> (Continue, x')
                | (Raise e, x') \<Rightarrow> (Raise e, x'))"

text \<open>A pure computation that can raise, followed by the statements that use its value.\<close>

definition try_then :: "error + 'a \<Rightarrow> ('a \<Rightarrow> phase) \<Rightarrow> phase" where
  "try_then m f x = (case m of Inl e \<Rightarrow> (Raise e, x) | Inr v \<Rightarrow> f v x)"

definition skip :: phase where
  "skip x = (Next, x)"

subsection \<open>Helpers of the module\<close>

definition hexbytes_to_hexstring :: "nat list \<Rightarrow> string" where
  "hexbytes_to_hexstring b = ''0x'' @ hexlify b"

text \<open>A stack entry used as a string (\<open>[-40:]\<close>, \<open>startswith\<close>): an integer is a TypeError.\<close>

fun str_of :: "jval \<Rightarrow> error + string" where
  "str_of (JStr s) = Inr s"
| "str_of (JInt _) = Inl TypeError"

definition last40 :: "string \<Rightarrow> string" where
  "last40 s = drop (length s - 40) s"

text \<open>\<open>b[offset : offset + length]\<close> for integers: negative bounds count from the end.\<close>

definition py_slice :: "'a list \<Rightarrow> int \<Rightarrow> int \<Rightarrow> 'a list" where
  "py_slice xs a b =
     (let n = int (length xs);
          lo = (if a < 0 then max 0 (n + a) else min a n);
          hi = (if b < 0 then max 0 (n + b) else min b n)
      in take (nat (hi - lo)) (drop (nat lo) xs))"

text \<open>\<open>HexBytes("".join(step["memory"]))[offset : offset + length]\<close>.\<close>

definition memory_slice :: "step \<Rightarrow> int \<Rightarrow> int \<Rightarrow> error + nat list" where
  "memory_slice s offset len =
     ebind (hexstr_to_bytes (concat (memory s))) (\<lambda>b. Inr (py_slice b offset (offset + len)))"

text \<open>\<open>_get_memory(step, idx)\<close> for a negative \<open>idx\<close>, the slice padded with zero bytes.\<close>

definition get_memory :: "step \<Rightarrow> int \<Rightarrow> error + nat list" where
  "get_memory s idx =
     ebind (py_index (stack s) idx) (\<lambda>o_v.
     ebind (int16 o_v) (\<lambda>offset.
     ebind (py_index (stack s) (idx - 1)) (\<lambda>l_v.
     ebind (int16 l_v) (\<lambda>len.
     ebind (memory_slice s offset len) (\<lambda>data.
       Inr (data @ replicate (nat (len - int (length data))) 0))))))"

text \<open>\<open>_get_last_map(address, sig)\<close>.\<close>

definition get_last_map :: "registry \<Rightarrow> string \<Rightarrow> string \<Rightarrow> error + last_entry" where
  "get_last_map reg addr sig =
     ebind (EthAddress reg addr) (\<lambda>a.
       case find_contract reg addr of
         Some c \<Rightarrow>
           Inr \<lparr>lm_address = a, lm_jumpDepth = 0, lm_name = Some (c_name c),
                lm_coverage = c_in_project c,
                lm_function = get_method_object c sig,
                lm_internal_calls =
                  [case get_method c sig of
                     Some m \<Rightarrow> c_name c @ ''.'' @ m
                   | None \<Rightarrow> c_name c],
                lm_path_map = c_allSourcePaths c,
                lm_pc_map = c_pcMap c,
                lm_active_branches =
                  (if c_in_project c \<and> c_language c = Some ''Solidity'' then Some [] else None)\<rparr>
       | None \<Rightarrow>
           Inr \<lparr>lm_address = a, lm_jumpDepth = 0, lm_name = None, lm_coverage = False,
                lm_function = None,
                lm_internal_calls = [''<UnknownContract>.'' @ sig],
                lm_path_map = None, lm_pc_map = None, lm_active_branches = None\<rparr>)"

text \<open>
  The regular expression \<open>0x0{38}(?:0[1-9]|1[0-8])\<close>: \<open>precompile_at\<close> matches it at
  the head of a string, \<open>precompile_search\<close> anywhere in it, as \<open>search\<close> does.
\<close>

definition precompile_at :: "string \<Rightarrow> bool" where
  "precompile_at s =
     (take 40 s = ''0x'' @ replicate 38 CHR ''0'' \<and>
      (case drop 40 s of
         a # b # _ \<Rightarrow>
           (a = CHR ''0'' \<and> 49 \<le> (of_char b :: nat) \<and> (of_char b :: nat) \<le> 57)
           \<or> (a = CHR ''1'' \<and> 48 \<le> (of_char b :: nat) \<and> (of_char b :: nat) \<le> 56)
       | _ \<Rightarrow> False))"

fun precompile_search :: "string \<Rightarrow> bool" where
  "precompile_search [] = False"
| "precompile_search (c # cs) = (precompile_at (c # cs) \<or> precompile_search cs)"

text \<open>\<open>_is_call_to_precompile(subcall)\<close>.\<close>

definition is_call_to_precompile :: "subcall \<Rightarrow> bool" where
  "is_call_to_precompile s = precompile_search (sc_to s)"

text \<open>\<open>self._add_internal_xfer(from_, to, value)\<close>, with \<open>frm\<close> for \<open>from_\<close>.\<close>

definition add_internal_xfer :: "registry \<Rightarrow> string \<Rightarrow> string \<Rightarrow> string \<Rightarrow> phase" where
  "add_internal_xfer reg frm to value =
     try_then (EthAddress reg frm) (\<lambda>f.
     try_then (EthAddress reg to) (\<lambda>t.
     try_then (Wei reg (if startswith value ''0x'' then value else ''0x'' @ value)) (\<lambda>v x.
       (Next, x\<lparr>x_internal_transfers := x_internal_transfers x @ [(f, t, v)]\<rparr>))))"


subsection \<open>The body of the loop over the trace\<close>

definition call_opcodes :: "string list" where
  "call_opcodes = [''CALL'', ''STATICCALL'', ''DELEGATECALL'']"

text \<open>\<open>step["address"]\<close>: KeyError on a step that was not annotated yet.\<close>

definition step_address :: "step \<Rightarrow> error + string" where
  "step_address s = (case address s of None \<Rightarrow> Inl KeyError | Some a \<Rightarrow> Inr a)"

text \<open>\<open>next(x for x in trace[i:] if x["depth"] == d)\<close>.\<close>

fun next_at_depth :: "step list \<Rightarrow> int \<Rightarrow> error + step" where
  "next_at_depth [] d = Inl StopIteration"
| "next_at_depth (s # ss) d = (if depth s = d then Inr s else next_at_depth ss d)"

text \<open>
  The call branch: call data offset and length from the stack (position \<open>-4\<close> for the
  opcodes that carry a value, \<open>-3\<close> otherwise), the call data from memory, and the
  target from the second stack item.
\<close>

definition call_data :: "step \<Rightarrow> error + (nat list \<times> string)" where
  "call_data s =
     (let stack_idx = (if op s = ''CALL'' \<or> op s = ''CALLCODE'' then - 4 else - 3) in
      ebind (ebind (py_index (stack s) stack_idx) int16) (\<lambda>offset.
      ebind (ebind (py_index (stack s) (stack_idx - 1)) int16) (\<lambda>len.
      ebind (memory_slice s offset len) (\<lambda>calldata.
      ebind (ebind (py_index (stack s) (- 2)) str_of) (\<lambda>target.
        Inr (calldata, last40 target))))))"

text \<open>
  The first part of the triggered block, up to the values \<open>address\<close>, \<open>sig\<close> and
  \<open>calldata\<close> (\<open>None\<close> in the create branch), which are handed to the rest \<open>k\<close>.
\<close>

definition subcall_target ::
  "registry \<Rightarrow> nat \<Rightarrow> step \<Rightarrow> (string \<Rightarrow> string \<Rightarrow> nat list option \<Rightarrow> phase) \<Rightarrow> phase" where
  "subcall_target reg i prev k x =
     (if op prev = ''CREATE'' \<or> op prev = ''CREATE2''
      then
        try_then (next_at_depth (drop i (x_trace x)) (depth prev)) (\<lambda>out.
        try_then (ebind (py_index (stack out) (- 1)) str_of) (\<lambda>top.
        try_then (EthAddress reg (last40 top)) (\<lambda>a.
        seq (\<lambda>x. (Next, x\<lparr>x_new_contracts := x_new_contracts x @ [a]\<rparr>))
       (try_then (ebind (py_index (stack prev) (- 1)) int16) (\<lambda>v.
        seq (if v \<noteq> 0
             then try_then (step_address prev) (\<lambda>sa.
                  try_then (ebind (py_index (stack prev) (- 1)) str_of) (\<lambda>vs.
                    add_internal_xfer reg sa (last40 top) vs))
             else skip)
            (k (last40 top) (''<'' @ op prev @ ''>'') None)))))) x
      else
        try_then (call_data prev) (\<lambda>(calldata, target).
          k target (hexbytes_to_hexstring (take 4 calldata)) (Some calldata)) x)"

text \<open>Assignment to a key of \<open>self._subcalls[-1]\<close>.\<close>

definition update_last_subcall :: "(subcall \<Rightarrow> subcall) \<Rightarrow> phase" where
  "update_last_subcall f x =
     (case py_index (x_subcalls x) (- 1) of
        Inl e \<Rightarrow> (Raise e, x)
      | Inr s \<Rightarrow> (Next, x\<lparr>x_subcalls := butlast (x_subcalls x) @ [f s]\<rparr>))"

text \<open>
  \<open>last_map[trace[i]["depth"]] = _get_last_map(address, sig)\<close> under
  \<open>is_depth_increase\<close>.
\<close>

definition enter_context :: "registry \<Rightarrow> bool \<Rightarrow> int \<Rightarrow> string \<Rightarrow> string \<Rightarrow> phase" where
  "enter_context reg is_depth_increase d addr sig =
     (if is_depth_increase
      then try_then (get_last_map reg addr sig) (\<lambda>l x.
             (Next, x\<lparr>x_last_map := (x_last_map x)(d := Some l)\<rparr>))
      else skip)"

text \<open>\<open>self._subcalls.append({"from": step["address"], "to": EthAddress(address), "op": step["op"]})\<close>.\<close>

definition append_subcall :: "registry \<Rightarrow> step \<Rightarrow> string \<Rightarrow> phase" where
  "append_subcall reg prev addr =
     try_then (step_address prev) (\<lambda>frm.
     try_then (EthAddress reg addr) (\<lambda>to x.
       (Next, x\<lparr>x_subcalls := x_subcalls x @
          [\<lparr>sc_from = frm, sc_to = to, sc_op = op prev, sc_value = None, sc_function = None,
            sc_inputs = None, sc_calldata = None, sc_returndata = None, sc_return_value = None,
            sc_revert_msg = None, sc_selfdestruct = False\<rparr>]\<rparr>)))"

definition set_value :: "step \<Rightarrow> phase" where
  "set_value prev =
     (if op prev = ''CALL'' \<or> op prev = ''CALLCODE''
      then try_then (ebind (py_index (stack prev) (- 3)) int16) (\<lambda>v.
             update_last_subcall (\<lambda>s. s\<lparr>sc_value := Some v\<rparr>))
      else skip)"

text \<open>
  The keys \<open>function\<close>, \<open>inputs\<close> and \<open>calldata\<close>. \<open>calldata\<close> is truthy when it is
  neither \<open>None\<close> nor empty; \<open>last_map[...]\<close> is read only under \<open>is_depth_increase\<close>.
\<close>

definition set_inputs :: "bool \<Rightarrow> bool \<Rightarrow> int \<Rightarrow> nat list option \<Rightarrow> phase" where
  "set_inputs is_depth_increase is_subcall d calldata x =
     (let truthy = (calldata \<noteq> None \<and> calldata \<noteq> Some []);
          f = (if is_depth_increase \<and> truthy
               then (case x_last_map x d of Some l \<Rightarrow> lm_function l | None \<Rightarrow> None)
               else None)
      in case (f, calldata) of
           (Some fo, Some cd) \<Rightarrow>
             seq (update_last_subcall (\<lambda>s. s\<lparr>sc_function := Some (input_sig fo)\<rparr>))
                 (case decode_input fo cd of
                    Some inputs \<Rightarrow> update_last_subcall (\<lambda>s. s\<lparr>sc_inputs := Some inputs\<rparr>)
                  | None \<Rightarrow>
                      update_last_subcall (\<lambda>s. s\<lparr>sc_calldata := Some (hexbytes_to_hexstring cd)\<rparr>))
               x
         | _ \<Rightarrow>
             (if truthy \<or> is_subcall
              then (case calldata of
                      Some cd \<Rightarrow>
                        update_last_subcall
                          (\<lambda>s. s\<lparr>sc_calldata := Some (hexbytes_to_hexstring cd)\<rparr>) x
                    | None \<Rightarrow> (Raise TypeError, x))
              else (Next, x)))"

text \<open>
  Lines 924 to 926: when the \<open>from\<close> of the record just appended matches the precompile
  pattern, the second-to-last record is popped and its \<open>from\<close> given to the last.
\<close>

definition merge_precompile :: phase where
  "merge_precompile x =
     (case py_index (x_subcalls x) (- 1) of
        Inl e \<Rightarrow> (Raise e, x)
      | Inr lst \<Rightarrow>
          if precompile_search (sc_from lst)
          then (case py_index (x_subcalls x) (- 2) of
                  Inl e \<Rightarrow> (Raise e, x)
                | Inr second \<Rightarrow>
                    (Next, x\<lparr>x_subcalls :=
                       take (length (x_subcalls x) - 2) (x_subcalls x)
                       @ [lst\<lparr>sc_from := sc_from second\<rparr>]\<rparr>))
          else (Next, x))"

text \<open>The whole triggered block (lines 881 to 926).\<close>

definition subcall_phase :: "registry \<Rightarrow> nat \<Rightarrow> phase" where
  "subcall_phase reg i x =
     try_then (py_index (x_trace x) (int i)) (\<lambda>ti.
     try_then (py_index (x_trace x) (int i - 1)) (\<lambda>prev.
       let is_depth_increase = (depth ti > depth prev);
           is_subcall = (op prev \<in> set call_opcodes)
       in if is_depth_increase \<or> is_subcall
          then subcall_target reg i prev (\<lambda>addr sig calldata.
                 seq (enter_context reg is_depth_increase (depth ti) addr sig)
                (seq (append_subcall reg prev addr)
                (seq (set_value prev)
                (seq (set_inputs is_depth_increase is_subcall (depth ti) calldata)
                     merge_precompile))))
          else skip)) x"

text \<open>\<open>last = last_map[trace[i]["depth"]]\<close>, with the step.\<close>

definition current :: "nat \<Rightarrow> expansion \<Rightarrow> error + (step \<times> last_entry)" where
  "current i x =
     ebind (py_index (x_trace x) (int i)) (\<lambda>ti.
       case x_last_map x (depth ti) of
         None \<Rightarrow> Inl KeyError
       | Some l \<Rightarrow> Inr (ti, l))"

text \<open>Assignment to keys of \<open>last\<close>, the dict at the step's depth, and of \<open>trace[i]\<close>.\<close>

definition update_last_entry :: "nat \<Rightarrow> (last_entry \<Rightarrow> last_entry) \<Rightarrow> phase" where
  "update_last_entry i f x =
     (case current i x of
        Inl e \<Rightarrow> (Raise e, x)
      | Inr (ti, l) \<Rightarrow> (Next, x\<lparr>x_last_map := (x_last_map x)(depth ti := Some (f l))\<rparr>))"

definition update_step :: "nat \<Rightarrow> (step \<Rightarrow> step) \<Rightarrow> phase" where
  "update_step i f x =
     (case py_index (x_trace x) (int i) of
        Inl e \<Rightarrow> (Raise e, x)
      | Inr ti \<Rightarrow> (Next, x\<lparr>x_trace := (x_trace x)[i := f ti]\<rparr>))"

text \<open>The \<open>trace[i].update(...)\<close> of lines 929 to 936.\<close>

definition annotate :: "nat \<Rightarrow> phase" where
  "annotate i x =
     try_then (current i x) (\<lambda>(ti, l).
     try_then (py_index (lm_internal_calls l) (- 1)) (\<lambda>f.
       update_step i (\<lambda>s. s\<lparr>address := Some (lm_address l), contractName := Some (lm_name l),
                             fn := Some f, jumpDepth := Some (lm_jumpDepth l),
                             source := None\<rparr>))) x"

text \<open>Lines 938 to 942: a CALL with a non-zero value is an internal transfer.\<close>

definition call_transfer :: "registry \<Rightarrow> nat \<Rightarrow> phase" where
  "call_transfer reg i x =
     try_then (current i x) (\<lambda>(ti, l).
       if op ti = ''CALL''
       then try_then (ebind (py_index (stack ti) (- 3)) int16) (\<lambda>v.
              if v \<noteq> 0
              then try_then (ebind (py_index (stack ti) (- 2)) str_of) (\<lambda>target.
                   try_then (ebind (py_index (stack ti) (- 3)) str_of) (\<lambda>vs.
                     add_internal_xfer reg (lm_address l) (last40 target) vs))
              else skip)
       else skip) x"


text \<open>
  \<open>next(i for i in self._subcalls[::-1] if i["to"] == last["address"])\<close>: the index of
  the last record with that target.
\<close>

fun find_subcall :: "subcall list \<Rightarrow> string \<Rightarrow> nat option" where
  "find_subcall [] a = None"
| "find_subcall (s # ss) a =
     (case find_subcall ss a of
        Some k \<Rightarrow> Some (Suc k)
      | None \<Rightarrow> (if sc_to s = a then Some 0 else None))"

text \<open>Assignment to a key of the record found, StopIteration when there is none.\<close>

definition update_found_subcall :: "string \<Rightarrow> (subcall \<Rightarrow> subcall) \<Rightarrow> phase" where
  "update_found_subcall a f x =
     (case find_subcall (x_subcalls x) a of
        None \<Rightarrow> (Raise StopIteration, x)
      | Some k \<Rightarrow> (Next, x\<lparr>x_subcalls := (x_subcalls x)[k := f (x_subcalls x ! k)]\<rparr>))"

text \<open>
  Lines 948 to 956: at a RETURN below depth 0 the raw return data is attached to the
  subcall, when there is any. The subcall is looked up first, so a missing one raises.
\<close>

definition early_returndata :: "nat \<Rightarrow> phase" where
  "early_returndata i x =
     try_then (current i x) (\<lambda>(ti, l).
       if depth ti \<noteq> 0 \<and> op ti = ''RETURN''
       then seq (update_found_subcall (lm_address l) (\<lambda>s. s))
                (try_then (get_memory ti (- 1)) (\<lambda>returndata.
                   if hexlify returndata \<noteq> []
                   then update_found_subcall (lm_address l)
                          (\<lambda>s. s\<lparr>sc_returndata := Some (hexbytes_to_hexstring returndata)\<rparr>)
                   else skip))
       else skip) x"

text \<open>
  Lines 958 to 962: \<open>pc = last["pc_map"][trace[i]["pc"]]\<close>; a missing map (TypeError)
  or key (KeyError) ends the iteration.
\<close>

definition lookup_pc :: "last_entry \<Rightarrow> jval \<Rightarrow> pc_entry option" where
  "lookup_pc l p =
     (case lm_pc_map l of
        None \<Rightarrow> None
      | Some m \<Rightarrow> (case p of JInt n \<Rightarrow> m n | JStr _ \<Rightarrow> None))"

definition with_pc :: "nat \<Rightarrow> (pc_entry \<Rightarrow> phase) \<Rightarrow> phase" where
  "with_pc i k x =
     try_then (current i x) (\<lambda>(ti, l).
       case lookup_pc l (pc ti) of
         None \<Rightarrow> (\<lambda>x. (Continue, x))
       | Some p \<Rightarrow> k p) x"

text \<open>Lines 964 to 993: what the subcall returned, or why it reverted.\<close>

definition subcall_result :: "registry \<Rightarrow> nat \<Rightarrow> pc_entry \<Rightarrow> phase" where
  "subcall_result reg i p x =
     try_then (current i x) (\<lambda>(ti, l).
       if depth ti \<noteq> 0 \<and> op ti \<in> {''RETURN'', ''REVERT'', ''INVALID'', ''SELFDESTRUCT''}
       then
         seq (update_found_subcall (lm_address l) (\<lambda>s. s))
        (if op ti = ''RETURN''
         then try_then (get_memory ti (- 1)) (\<lambda>returndata.
                if returndata \<noteq> []
                then (case (case lm_function l of
                              None \<Rightarrow> None
                            | Some fo \<Rightarrow> decode_output fo returndata) of
                        Some rv \<Rightarrow>
                          update_found_subcall (lm_address l)
                            (\<lambda>s. s\<lparr>sc_return_value := Some (Some rv)\<rparr>)
                      | None \<Rightarrow>
                          update_found_subcall (lm_address l)
                            (\<lambda>s. s\<lparr>sc_returndata := Some (hexbytes_to_hexstring returndata)\<rparr>))
                else update_found_subcall (lm_address l) (\<lambda>s. s\<lparr>sc_return_value := Some None\<rparr>))
         else if op ti = ''SELFDESTRUCT''
         then update_found_subcall (lm_address l) (\<lambda>s. s\<lparr>sc_selfdestruct := True\<rparr>)
         else
           seq (if op ti = ''REVERT''
                then try_then (get_memory ti (- 1)) (\<lambda>data.
                       if length data > 4
                       then update_found_subcall (lm_address l)
                              (\<lambda>s. s\<lparr>sc_revert_msg :=
                                 Some (case decode_string reg (drop 4 data) of
                                         Some m \<Rightarrow> m
                                       | None \<Rightarrow> hexbytes_to_hexstring data)\<rparr>)
                       else skip)
                else skip)
               (case pe_dev p of
                  Some dev \<Rightarrow>
                    update_found_subcall (lm_address l)
                      (\<lambda>s. if sc_revert_msg s = None then s\<lparr>sc_revert_msg := Some dev\<rparr> else s)
                | None \<Rightarrow> skip))
       else skip) x"

text \<open>
  Lines 995 to 1000: without a \<open>path\<close> the iteration ends; otherwise the source
  location is set, from \<open>last["path_map"][pc["path"]]\<close> and \<open>pc["offset"]\<close>; then
  without a \<open>fn\<close> the iteration ends.
\<close>

definition set_source :: "nat \<Rightarrow> pc_entry \<Rightarrow> phase" where
  "set_source i p x =
     try_then (current i x) (\<lambda>(ti, l).
       case pe_path p of
         None \<Rightarrow> (\<lambda>x. (Continue, x))
       | Some path \<Rightarrow>
           try_then (case lm_path_map l of
                       None \<Rightarrow> Inl TypeError
                     | Some m \<Rightarrow> (case m path of None \<Rightarrow> Inl KeyError | Some f \<Rightarrow> Inr f)) (\<lambda>filename.
           try_then (case pe_offset p of None \<Rightarrow> Inl KeyError | Some off \<Rightarrow> Inr off) (\<lambda>off.
             update_step i (\<lambda>s. s\<lparr>source := Some (filename, off)\<rparr>)))) x"

definition need_fn :: "pc_entry \<Rightarrow> phase" where
  "need_fn p x = (case pe_fn p of None \<Rightarrow> (Continue, x) | Some _ \<Rightarrow> (Next, x))"

text \<open>Lines 1002 to 1016: coverage of statements and branches.\<close>

definition add_hit :: "string option \<Rightarrow> string \<Rightarrow> nat \<Rightarrow> int \<Rightarrow> phase" where
  "add_hit name path key ident x =
     (Next, x\<lparr>x_coverage_eval := x_coverage_eval x @ [(name, path, key, ident)]\<rparr>)"

definition coverage_branch :: "nat \<Rightarrow> pc_entry \<Rightarrow> string \<Rightarrow> int \<Rightarrow> phase" where
  "coverage_branch i p path branch x =
     try_then (current i x) (\<lambda>(ti, l).
       if pe_op p \<noteq> ''JUMPI''
       then (case lm_active_branches l of
               None \<Rightarrow> (\<lambda>x. (Raise KeyError, x))
             | Some ab \<Rightarrow>
                 update_last_entry i (\<lambda>l. l\<lparr>lm_active_branches := Some (List.insert branch ab)\<rparr>))
       else if lm_active_branches l = None \<or> branch \<in> set (the (lm_active_branches l))
       then
         try_then (py_index (x_trace x) (int i + 1)) (\<lambda>nxt.
         try_then (num (pc ti)) (\<lambda>n.
           seq (add_hit (lm_name l) path (if pc nxt = JInt (n + 1) then 1 else 2) branch)
               (case lm_active_branches l of
                  None \<Rightarrow> skip
                | Some ab \<Rightarrow>
                    update_last_entry i (\<lambda>l. l\<lparr>lm_active_branches := Some (removeAll branch ab)\<rparr>))))
       else skip) x"

definition coverage_phase :: "nat \<Rightarrow> pc_entry \<Rightarrow> phase" where
  "coverage_phase i p x =
     try_then (current i x) (\<lambda>(ti, l).
       if lm_coverage l
       then (case pe_path p of
               None \<Rightarrow> (\<lambda>x. (Raise KeyError, x))
             | Some path \<Rightarrow>
                 seq (case pe_statement p of
                        Some st \<Rightarrow> add_hit (lm_name l) path 0 st
                      | None \<Rightarrow> skip)
                     (case pe_branch p of
                        Some br \<Rightarrow> coverage_branch i p path br
                      | None \<Rightarrow> skip))
       else skip) x"

text \<open>
  Lines 1018 to 1032. A \<open>jump\<close> of \<open>i\<close> calls into an internal function: its name is
  the \<open>fn\<close> of the next step's map entry (a missing next step, key or \<open>fn\<close> ends the
  iteration), pushed when it differs from the top of \<open>internal_calls\<close>. Any other
  \<open>jump\<close> returns: the top is deleted and \<open>jumpDepth\<close> decremented, only while
  \<open>jumpDepth\<close> is greater than 0.
\<close>

definition jump_phase :: "nat \<Rightarrow> pc_entry \<Rightarrow> phase" where
  "jump_phase i p x =
     try_then (current i x) (\<lambda>(ti, l).
       case pe_jump p of
         None \<Rightarrow> skip
       | Some j \<Rightarrow>
           if j = ''i''
           then (case (case py_index (x_trace x) (int i + 1) of
                         Inl _ \<Rightarrow> None
                       | Inr nxt \<Rightarrow>
                           (case lookup_pc l (pc nxt) of None \<Rightarrow> None | Some q \<Rightarrow> pe_fn q)) of
                   None \<Rightarrow> (\<lambda>x. (Continue, x))
                 | Some f \<Rightarrow>
                     try_then (py_index (lm_internal_calls l) (- 1)) (\<lambda>top.
                       if f \<noteq> top
                       then update_last_entry i
                              (\<lambda>l. l\<lparr>lm_internal_calls := lm_internal_calls l @ [f],
                                      lm_jumpDepth := lm_jumpDepth l + 1\<rparr>)
                       else skip))
           else if lm_jumpDepth l > 0
           then try_then (py_index (lm_internal_calls l) (- 1)) (\<lambda>_.
                  update_last_entry i
                    (\<lambda>l. l\<lparr>lm_internal_calls := butlast (lm_internal_calls l),
                            lm_jumpDepth := lm_jumpDepth l - 1\<rparr>))
           else skip) x"

text \<open>One iteration, and the loop \<open>for i in range(len(trace))\<close>.\<close>

definition expand_body :: "registry \<Rightarrow> nat \<Rightarrow> phase" where
  "expand_body reg i =
     seq (subcall_phase reg i)
    (seq (annotate i)
    (seq (call_transfer reg i)
    (seq (early_returndata i)
    (with_pc i (\<lambda>p.
       seq (subcall_result reg i p)
      (seq (set_source i p)
      (seq (need_fn p)
      (seq (coverage_phase i p)
           (jump_phase i p)))))))))"

fun expand_loop :: "registry \<Rightarrow> nat list \<Rightarrow> expansion \<Rightarrow> error option \<times> expansion" where
  "expand_loop reg [] x = (None, x)"
| "expand_loop reg (i # rest) x =
     (case expand_body reg i x of
        (Raise e, x') \<Rightarrow> (Some e, x')
      | (_, x') \<Rightarrow> expand_loop reg rest x')"


subsection \<open>The function around the loop\<close>

text \<open>
  Lines 857 to 872: the trace's origin, the initial call cost and the trace with depths
  counted from 0. A first depth of 1 is geth's convention: every depth is decremented.
  Otherwise, a first \<open>gasCost\<close> of at least 21000 is the shift of old ganache versions:
  every \<open>gasCost\<close> moves one step back and the last becomes 0.
\<close>

definition shift_gas_cost :: "step list \<Rightarrow> step list" where
  "shift_gas_cost tr =
     map (\<lambda>i. (tr ! i)\<lparr>gasCost := (if Suc i < length tr then gasCost (tr ! Suc i) else JInt 0)\<rparr>)
         [0..<length tr]"

definition default_call_cost :: "int option \<Rightarrow> step list \<Rightarrow> error + int" where
  "default_call_cost gas_used tr =
     (case gas_used of
        None \<Rightarrow> Inl TypeError
      | Some g \<Rightarrow>
          ebind (py_index tr 0) (\<lambda>first.
          ebind (num (gas first)) (\<lambda>g0.
          ebind (py_index tr (- 1)) (\<lambda>lst.
          ebind (num (gas lst)) (\<lambda>g1. Inr (g - g0 + g1))))))"

definition prepare_trace :: "int option \<Rightarrow> step list \<Rightarrow> string option \<times> (error + int \<times> step list)" where
  "prepare_trace gas_used tr =
     (case tr of
        [] \<Rightarrow> (None, Inl IndexError)
      | first # _ \<Rightarrow>
          if depth first = 1
          then (Some ''geth'',
                ebind (default_call_cost gas_used tr) (\<lambda>c.
                  Inr (c, map (\<lambda>t. t\<lparr>depth := depth t - 1\<rparr>) tr)))
          else (Some ''ganache'',
                ebind (num (gasCost first)) (\<lambda>c0.
                  if c0 \<ge> 21000 then Inr (c0, shift_gas_cost tr)
                  else ebind (default_call_cost gas_used tr) (\<lambda>c. Inr (c, tr)))))"

text \<open>
  Lines 874 to 1032 on a prepared trace: \<open>last_map\<close> starts with the entry for the
  receiver and the first ten characters of the input at depth 0, the three result lists
  start empty, and the loop runs over every index. The result is the exception that
  escapes, if any, and the state as the loop leaves it. A missing receiver raises.
\<close>

definition initial_expansion :: "step list \<Rightarrow> expansion" where
  "initial_expansion tr =
     \<lparr>x_trace = tr, x_last_map = (\<lambda>_. None), x_subcalls = [], x_new_contracts = [],
      x_internal_transfers = [], x_coverage_eval = []\<rparr>"

definition expand_core ::
  "registry \<Rightarrow> string option \<Rightarrow> string \<Rightarrow> step list \<Rightarrow> error option \<times> expansion" where
  "expand_core reg receiver inp tr =
     (case (case receiver of None \<Rightarrow> Inl TypeError | Some r \<Rightarrow> get_last_map reg r (take 10 inp)) of
        Inl e \<Rightarrow> (Some e, initial_expansion tr)
      | Inr l \<Rightarrow>
          expand_loop reg [0..<length tr]
            ((initial_expansion tr)\<lparr>x_last_map := (\<lambda>_. None)(0 := Some l)\<rparr>))"

subsection \<open>Jump depth and the stack of internal calls\<close>

text \<open>
  The invariant: in every entry of \<open>last_map\<close> the jump depth is not negative and
  \<open>internal_calls\<close> holds one name more than the jump depth (so it is never empty), and
  every \<open>jumpDepth\<close> written on a step is not negative.
\<close>

definition entry_ok :: "last_entry \<Rightarrow> bool" where
  "entry_ok l = (0 \<le> lm_jumpDepth l \<and> int (length (lm_internal_calls l)) = lm_jumpDepth l + 1)"

definition step_ok :: "step \<Rightarrow> bool" where
  "step_ok s = (case jumpDepth s of None \<Rightarrow> True | Some jd \<Rightarrow> 0 \<le> jd)"

definition jump_inv :: "expansion \<Rightarrow> bool" where
  "jump_inv x =
     ((\<forall>d l. x_last_map x d = Some l \<longrightarrow> entry_ok l) \<and> list_all step_ok (x_trace x))"

definition pres :: "phase \<Rightarrow> bool" where
  "pres f = (\<forall>x. jump_inv x \<longrightarrow> jump_inv (snd (f x)))"

lemma presI: "(\<And>x. jump_inv x \<Longrightarrow> jump_inv (snd (f x))) \<Longrightarrow> pres f"
  by (simp add: pres_def)

lemma presD: "pres f \<Longrightarrow> jump_inv x \<Longrightarrow> jump_inv (snd (f x))"
  by (simp add: pres_def)

lemma pres_skip: "pres skip"
  by (simp add: pres_def skip_def)

lemma pres_const: "pres (\<lambda>x. (r, x))"
  by (simp add: pres_def)

lemma pres_seq: "pres f \<Longrightarrow> pres g \<Longrightarrow> pres (seq f g)"
proof (rule presI)
  fix x assume f: "pres f" and g: "pres g" and x: "jump_inv x"
  obtain r x' where fx: "f x = (r, x')" by (cases "f x")
  with presD [OF f x] have x': "jump_inv x'" by simp
  show "jump_inv (snd (seq f g x))"
  proof (cases r)
    case Next
    with fx presD [OF g x'] show ?thesis by (simp add: seq_def)
  next
    case Continue
    with fx x' show ?thesis by (simp add: seq_def)
  next
    case (Raise e)
    with fx x' show ?thesis by (simp add: seq_def)
  qed
qed

lemma pres_try_then: "(\<And>v. m = Inr v \<Longrightarrow> pres (f v)) \<Longrightarrow> pres (try_then m f)"
  by (cases m) (auto simp: pres_def try_then_def)

lemma pres_if: "(c \<Longrightarrow> pres f) \<Longrightarrow> (\<not> c \<Longrightarrow> pres g) \<Longrightarrow> pres (if c then f else g)"
  by simp

lemma pres_at: "(\<And>x. jump_inv x \<Longrightarrow> pres (\<lambda>y. f x y)) \<Longrightarrow> pres (\<lambda>x. f x x)"
  by (auto simp: pres_def)

lemma pres_subcalls_only:
  "(\<And>x. \<exists>r subs. f x = (r, x\<lparr>x_subcalls := subs\<rparr>)) \<Longrightarrow> pres f"
proof (rule presI)
  fix x assume a: "\<And>x. \<exists>r subs. f x = (r, x\<lparr>x_subcalls := subs\<rparr>)" and j: "jump_inv x"
  from a obtain r subs where "f x = (r, x\<lparr>x_subcalls := subs\<rparr>)" by blast
  with j show "jump_inv (snd (f x))" by (simp add: jump_inv_def)
qed

lemma pres_update_last_subcall: "pres (update_last_subcall f)"
  by (rule presI) (auto simp: update_last_subcall_def jump_inv_def split: sum.splits)

lemma pres_update_found_subcall: "pres (update_found_subcall a f)"
  by (rule presI) (auto simp: update_found_subcall_def jump_inv_def split: option.splits)

lemma pres_add_hit: "pres (add_hit n p k b)"
  by (rule presI) (simp add: add_hit_def jump_inv_def)

lemma pres_add_internal_xfer: "pres (add_internal_xfer reg a b v)"
  unfolding add_internal_xfer_def
  by (intro pres_try_then presI) (simp add: jump_inv_def)

lemma pres_merge_precompile: "pres merge_precompile"
  by (rule presI) (auto simp: merge_precompile_def jump_inv_def split: sum.splits)

lemma pres_update_step:
  "(\<And>s. step_ok s \<Longrightarrow> step_ok (f s)) \<Longrightarrow> pres (update_step i f)"
proof (rule presI)
  fix x assume f: "\<And>s. step_ok s \<Longrightarrow> step_ok (f s)" and j: "jump_inv x"
  show "jump_inv (snd (update_step i f x))"
  proof (cases "py_index (x_trace x) (int i)")
    case (Inl e)
    with j show ?thesis by (simp add: update_step_def)
  next
    case (Inr ti)
    then have il: "i < length (x_trace x)" and ti: "ti = x_trace x ! i"
      by (simp_all add: py_index_def Let_def split: if_splits)
    from j have all: "list_all step_ok (x_trace x)" by (simp add: jump_inv_def)
    with il ti have "step_ok ti" by (simp add: list_all_length)
    then have "step_ok (f ti)" by (rule f)
    with all have "list_all step_ok ((x_trace x)[i := f ti])"
      by (auto simp: list_all_iff dest!: set_update_subset_insert [THEN subsetD])
    with j Inr show ?thesis by (simp add: update_step_def jump_inv_def)
  qed
qed

lemma pres_update_last_entry:
  "(\<And>l. entry_ok l \<Longrightarrow> entry_ok (f l)) \<Longrightarrow> pres (update_last_entry i f)"
proof (rule presI)
  fix x assume f: "\<And>l. entry_ok l \<Longrightarrow> entry_ok (f l)" and j: "jump_inv x"
  show "jump_inv (snd (update_last_entry i f x))"
  proof (cases "current i x")
    case (Inl e)
    with j show ?thesis by (simp add: update_last_entry_def)
  next
    case (Inr p)
    obtain ti l where p: "p = (ti, l)" by (cases p)
    with Inr have "x_last_map x (depth ti) = Some l"
      by (auto simp: current_def ebind_def split: sum.splits option.splits)
    with j have "entry_ok l" by (simp add: jump_inv_def)
    then have "entry_ok (f l)" by (rule f)
    with j Inr p show ?thesis by (simp add: update_last_entry_def jump_inv_def)
  qed
qed


lemma current_entry_ok: "jump_inv x \<Longrightarrow> current i x = Inr (ti, l) \<Longrightarrow> entry_ok l"
  by (auto simp: current_def ebind_def jump_inv_def split: sum.splits option.splits)

lemma update_last_entry_at:
  assumes j: "jump_inv x" and c: "current i x = Inr (ti, l)" and f: "entry_ok l \<Longrightarrow> entry_ok (f l)"
  shows "jump_inv (snd (update_last_entry i f x))"
proof -
  from current_entry_ok [OF j c] have "entry_ok (f l)" by (rule f)
  with j c show ?thesis by (simp add: update_last_entry_def jump_inv_def)
qed

lemma get_last_map_entry_ok: "get_last_map reg a s = Inr l \<Longrightarrow> entry_ok l"
  by (auto simp: get_last_map_def ebind_def entry_ok_def split: sum.splits option.splits)

lemma pres_enter_context: "pres (enter_context reg inc d a s)"
proof (cases inc)
  case False
  then show ?thesis by (simp add: enter_context_def pres_skip)
next
  case True
  have "pres (try_then (get_last_map reg a s) (\<lambda>l x.
             (Next, x\<lparr>x_last_map := (x_last_map x)(d := Some l)\<rparr>)))"
  proof (rule pres_try_then)
    fix l assume "get_last_map reg a s = Inr l"
    then have "entry_ok l" by (rule get_last_map_entry_ok)
    then show "pres (\<lambda>x. (Next, x\<lparr>x_last_map := (x_last_map x)(d := Some l)\<rparr>))"
      by (auto simp: pres_def jump_inv_def)
  qed
  with True show ?thesis by (simp add: enter_context_def)
qed

lemma pres_append_subcall: "pres (append_subcall reg prev a)"
  unfolding append_subcall_def
  by (intro pres_try_then presI) (simp add: jump_inv_def)

lemma pres_set_value: "pres (set_value prev)"
  unfolding set_value_def
  by (intro pres_if pres_try_then pres_update_last_subcall pres_skip)

lemma pres_set_inputs: "pres (set_inputs inc sub d cd)"
proof (rule presI)
  fix x assume j: "jump_inv x"
  let ?truthy = "cd \<noteq> None \<and> cd \<noteq> Some []"
  let ?f = "if inc \<and> ?truthy
               then (case x_last_map x d of Some l \<Rightarrow> lm_function l | None \<Rightarrow> None)
               else None"
  show "jump_inv (snd (set_inputs inc sub d cd x))"
  proof (cases "?f")
    case None
    then show ?thesis
      using j presD [OF pres_update_last_subcall j]
      by (cases cd) (simp_all add: set_inputs_def Let_def)
  next
    case (Some fo)
    then obtain c where c: "cd = Some c" by (cases cd) (auto split: if_splits)
    have "pres (seq (update_last_subcall (\<lambda>s. s\<lparr>sc_function := Some (input_sig fo)\<rparr>))
                 (case decode_input fo c of
                    Some inputs \<Rightarrow> update_last_subcall (\<lambda>s. s\<lparr>sc_inputs := Some inputs\<rparr>)
                  | None \<Rightarrow>
                      update_last_subcall (\<lambda>s. s\<lparr>sc_calldata := Some (hexbytes_to_hexstring c)\<rparr>)))"
      by (cases "decode_input fo c") (simp_all add: pres_seq pres_update_last_subcall)
    from presD [OF this j] Some c show ?thesis by (simp add: set_inputs_def Let_def)
  qed
qed

lemma pres_subcall_target:
  assumes "\<And>a s c. pres (k a s c)"
  shows "pres (subcall_target reg i prev k)"
proof (rule presI)
  fix x assume j: "jump_inv x"
  show "jump_inv (snd (subcall_target reg i prev k x))"
  proof (cases "op prev = ''CREATE'' \<or> op prev = ''CREATE2''")
    case False
    have "pres (try_then (call_data prev) (\<lambda>(calldata, target).
          k target (hexbytes_to_hexstring (take 4 calldata)) (Some calldata)))"
      by (rule pres_try_then) (auto simp: assms)
    from presD [OF this j] False show ?thesis by (simp add: subcall_target_def)
  next
    case True
    have "pres (try_then (next_at_depth (drop i (x_trace x)) (depth prev)) (\<lambda>out.
        try_then (ebind (py_index (stack out) (- 1)) str_of) (\<lambda>top.
        try_then (EthAddress reg (last40 top)) (\<lambda>a.
        seq (\<lambda>x. (Next, x\<lparr>x_new_contracts := x_new_contracts x @ [a]\<rparr>))
       (try_then (ebind (py_index (stack prev) (- 1)) int16) (\<lambda>v.
        seq (if v \<noteq> 0
             then try_then (step_address prev) (\<lambda>sa.
                  try_then (ebind (py_index (stack prev) (- 1)) str_of) (\<lambda>vs.
                    add_internal_xfer reg sa (last40 top) vs))
             else skip)
            (k (last40 top) (''<'' @ op prev @ ''>'') None)))))))"
      by (intro pres_try_then pres_seq pres_if pres_skip pres_add_internal_xfer assms presI)
         (simp add: jump_inv_def)
    from presD [OF this j] True show ?thesis by (simp add: subcall_target_def)
  qed
qed

lemma pres_subcall_phase: "pres (subcall_phase reg i)"
proof (rule presI)
  fix x assume j: "jump_inv x"
  show "jump_inv (snd (subcall_phase reg i x))"
  proof (cases "py_index (x_trace x) (int i)")
    case (Inl e)
    with j show ?thesis by (simp add: subcall_phase_def try_then_def)
  next
    case ti: (Inr ti)
    show ?thesis
    proof (cases "py_index (x_trace x) (int i - 1)")
      case (Inl e)
      with j ti show ?thesis by (simp add: subcall_phase_def try_then_def)
    next
      case (Inr prev)
      let ?inc = "depth ti > depth prev" and ?sub = "op prev \<in> set call_opcodes"
      have "pres (subcall_target reg i prev (\<lambda>addr sig calldata.
                 seq (enter_context reg ?inc (depth ti) addr sig)
                (seq (append_subcall reg prev addr)
                (seq (set_value prev)
                (seq (set_inputs ?inc ?sub (depth ti) calldata)
                     merge_precompile)))))"
        by (intro pres_subcall_target pres_seq pres_enter_context pres_append_subcall
            pres_set_value pres_set_inputs pres_merge_precompile)
      from presD [OF this j] j ti Inr show ?thesis
        by (simp add: subcall_phase_def try_then_def Let_def skip_def)
    qed
  qed
qed

lemma pres_annotate: "pres (annotate i)"
proof (rule presI)
  fix x assume j: "jump_inv x"
  show "jump_inv (snd (annotate i x))"
  proof (cases "current i x")
    case (Inl e)
    with j show ?thesis by (simp add: annotate_def try_then_def)
  next
    case (Inr p)
    obtain ti l where p: "p = (ti, l)" by (cases p)
    from current_entry_ok [OF j Inr [unfolded p]] have ok: "0 \<le> lm_jumpDepth l"
      by (simp add: entry_ok_def)
    have "pres (try_then (py_index (lm_internal_calls l) (- 1)) (\<lambda>f.
       update_step i (\<lambda>s. s\<lparr>address := Some (lm_address l), contractName := Some (lm_name l),
                             fn := Some f, jumpDepth := Some (lm_jumpDepth l),
                             source := None\<rparr>)))"
      by (intro pres_try_then pres_update_step) (simp add: step_ok_def ok)
    from presD [OF this j] Inr p show ?thesis by (simp add: annotate_def try_then_def)
  qed
qed


lemma pres_with_current:
  assumes "\<And>x ti l. jump_inv x \<Longrightarrow> current i x = Inr (ti, l) \<Longrightarrow> jump_inv (snd (f ti l x))"
  shows "pres (\<lambda>x. try_then (current i x) (\<lambda>(ti, l). f ti l) x)"
proof (rule presI)
  fix x assume j: "jump_inv x"
  show "jump_inv (snd (try_then (current i x) (\<lambda>(ti, l). f ti l) x))"
  proof (cases "current i x")
    case (Inl e)
    with j show ?thesis by (simp add: try_then_def)
  next
    case (Inr p)
    obtain ti l where p: "p = (ti, l)" by (cases p)
    from assms [OF j Inr [unfolded p]] Inr p show ?thesis by (simp add: try_then_def)
  qed
qed

lemma pres_call_transfer: "pres (call_transfer reg i)"
proof -
  have "pres (\<lambda>x. try_then (current i x) (\<lambda>(ti, l).
       if op ti = ''CALL''
       then try_then (ebind (py_index (stack ti) (- 3)) int16) (\<lambda>v.
              if v \<noteq> 0
              then try_then (ebind (py_index (stack ti) (- 2)) str_of) (\<lambda>target.
                   try_then (ebind (py_index (stack ti) (- 3)) str_of) (\<lambda>vs.
                     add_internal_xfer reg (lm_address l) (last40 target) vs))
              else skip)
       else skip) x)"
    by (rule pres_with_current, rule presD)
       (intro pres_if pres_try_then pres_add_internal_xfer pres_skip)
  then show ?thesis by (simp add: call_transfer_def [abs_def])
qed

lemma pres_early_returndata: "pres (early_returndata i)"
proof -
  have "pres (\<lambda>x. try_then (current i x) (\<lambda>(ti, l).
       if depth ti \<noteq> 0 \<and> op ti = ''RETURN''
       then seq (update_found_subcall (lm_address l) (\<lambda>s. s))
                (try_then (get_memory ti (- 1)) (\<lambda>returndata.
                   if hexlify returndata \<noteq> []
                   then update_found_subcall (lm_address l)
                          (\<lambda>s. s\<lparr>sc_returndata := Some (hexbytes_to_hexstring returndata)\<rparr>)
                   else skip))
       else skip) x)"
    by (rule pres_with_current, rule presD)
       (intro pres_if pres_seq pres_try_then pres_update_found_subcall pres_skip)
  then show ?thesis by (simp add: early_returndata_def [abs_def])
qed

lemma pres_subcall_result: "pres (subcall_result reg i p)"
proof -
  have "pres (\<lambda>x. try_then (current i x) (\<lambda>(ti, l).
       if depth ti \<noteq> 0 \<and> op ti \<in> {''RETURN'', ''REVERT'', ''INVALID'', ''SELFDESTRUCT''}
       then
         seq (update_found_subcall (lm_address l) (\<lambda>s. s))
        (if op ti = ''RETURN''
         then try_then (get_memory ti (- 1)) (\<lambda>returndata.
                if returndata \<noteq> []
                then (case (case lm_function l of
                              None \<Rightarrow> None
                            | Some fo \<Rightarrow> decode_output fo returndata) of
                        Some rv \<Rightarrow>
                          update_found_subcall (lm_address l)
                            (\<lambda>s. s\<lparr>sc_return_value := Some (Some rv)\<rparr>)
                      | None \<Rightarrow>
                          update_found_subcall (lm_address l)
                            (\<lambda>s. s\<lparr>sc_returndata := Some (hexbytes_to_hexstring returndata)\<rparr>))
                else update_found_subcall (lm_address l) (\<lambda>s. s\<lparr>sc_return_value := Some None\<rparr>))
         else if op ti = ''SELFDESTRUCT''
         then update_found_subcall (lm_address l) (\<lambda>s. s\<lparr>sc_selfdestruct := True\<rparr>)
         else
           seq (if op ti = ''REVERT''
                then try_then (get_memory ti (- 1)) (\<lambda>data.
                       if length data > 4
                       then update_found_subcall (lm_address l)
                              (\<lambda>s. s\<lparr>sc_revert_msg :=
                                 Some (case decode_string reg (drop 4 data) of
                                         Some m \<Rightarrow> m
                                       | None \<Rightarrow> hexbytes_to_hexstring data)\<rparr>)
                       else skip)
                else skip)
               (case pe_dev p of
                  Some dev \<Rightarrow>
                    update_found_subcall (lm_address l)
                      (\<lambda>s. if sc_revert_msg s = None then s\<lparr>sc_revert_msg := Some dev\<rparr> else s)
                | None \<Rightarrow> skip))
       else skip) x)"
    by (rule pres_with_current, rule presD)
       (auto intro!: pres_if pres_seq pres_try_then pres_update_found_subcall pres_skip
             split: option.splits)
  then show ?thesis by (simp add: subcall_result_def [abs_def])
qed

lemma pres_set_source: "pres (set_source i p)"
proof -
  have "pres (\<lambda>x. try_then (current i x) (\<lambda>(ti, l).
       case pe_path p of
         None \<Rightarrow> (\<lambda>x. (Continue, x))
       | Some path \<Rightarrow>
           try_then (case lm_path_map l of
                       None \<Rightarrow> Inl TypeError
                     | Some m \<Rightarrow> (case m path of None \<Rightarrow> Inl KeyError | Some f \<Rightarrow> Inr f)) (\<lambda>filename.
           try_then (case pe_offset p of None \<Rightarrow> Inl KeyError | Some off \<Rightarrow> Inr off) (\<lambda>off.
             update_step i (\<lambda>s. s\<lparr>source := Some (filename, off)\<rparr>)))) x)"
    by (rule pres_with_current, rule presD)
       (auto intro!: pres_try_then pres_update_step pres_const simp: step_ok_def
             split: option.splits)
  then show ?thesis by (simp add: set_source_def [abs_def])
qed

lemma pres_need_fn: "pres (need_fn p)"
  by (rule presI) (simp add: need_fn_def split: option.splits)

lemma entry_ok_active_branches:
  "entry_ok l \<Longrightarrow> entry_ok (l\<lparr>lm_active_branches := b\<rparr>)"
  by (simp add: entry_ok_def)

lemma try_then_simps: "try_then (Inl e) f x = (Raise e, x)" "try_then (Inr v) f x = f v x"
  by (simp_all add: try_then_def)

lemma pres_coverage_branch: "pres (coverage_branch i p path branch)"
proof (rule presI)
  fix x assume j: "jump_inv x"
  show "jump_inv (snd (coverage_branch i p path branch x))"
  proof (cases "current i x")
    case (Inl e)
    with j show ?thesis by (simp add: coverage_branch_def try_then_simps)
  next
    case (Inr q)
    obtain ti l where q: "q = (ti, l)" by (cases q)
    have "pres (if pe_op p \<noteq> ''JUMPI''
       then (case lm_active_branches l of
               None \<Rightarrow> (\<lambda>x. (Raise KeyError, x))
             | Some ab \<Rightarrow>
                 update_last_entry i (\<lambda>l. l\<lparr>lm_active_branches := Some (List.insert branch ab)\<rparr>))
       else if lm_active_branches l = None \<or> branch \<in> set (the (lm_active_branches l))
       then
         try_then (py_index (x_trace x) (int i + 1)) (\<lambda>nxt.
         try_then (num (pc ti)) (\<lambda>n.
           seq (add_hit (lm_name l) path (if pc nxt = JInt (n + 1) then 1 else 2) branch)
               (case lm_active_branches l of
                  None \<Rightarrow> skip
                | Some ab \<Rightarrow>
                    update_last_entry i (\<lambda>l. l\<lparr>lm_active_branches := Some (removeAll branch ab)\<rparr>))))
       else skip)"
      by (auto intro!: pres_if pres_seq pres_try_then pres_update_last_entry pres_add_hit
                     pres_skip pres_const entry_ok_active_branches
             split: option.splits)
    from presD [OF this j] Inr q show ?thesis
      by (simp add: coverage_branch_def try_then_simps)
  qed
qed

lemma pres_coverage_phase: "pres (coverage_phase i p)"
proof -
  have "pres (\<lambda>x. try_then (current i x) (\<lambda>(ti, l).
       if lm_coverage l
       then (case pe_path p of
               None \<Rightarrow> (\<lambda>x. (Raise KeyError, x))
             | Some path \<Rightarrow>
                 seq (case pe_statement p of
                        Some st \<Rightarrow> add_hit (lm_name l) path 0 st
                      | None \<Rightarrow> skip)
                     (case pe_branch p of
                        Some br \<Rightarrow> coverage_branch i p path br
                      | None \<Rightarrow> skip))
       else skip) x)"
    by (rule pres_with_current, rule presD)
       (auto intro!: pres_if pres_seq pres_add_hit pres_coverage_branch pres_skip pres_const
             split: option.splits)
  then show ?thesis by (simp add: coverage_phase_def [abs_def])
qed


lemma entry_ok_push:
  "entry_ok l \<Longrightarrow> entry_ok (l\<lparr>lm_internal_calls := lm_internal_calls l @ [f],
                                      lm_jumpDepth := lm_jumpDepth l + 1\<rparr>)"
  by (simp add: entry_ok_def)

lemma entry_ok_pop:
  "entry_ok l \<Longrightarrow> lm_jumpDepth l > 0 \<Longrightarrow>
     entry_ok (l\<lparr>lm_internal_calls := butlast (lm_internal_calls l),
                 lm_jumpDepth := lm_jumpDepth l - 1\<rparr>)"
  by (auto simp: entry_ok_def)

lemma pres_jump_phase: "pres (jump_phase i p)"
proof (rule presI)
  fix x assume j: "jump_inv x"
  show "jump_inv (snd (jump_phase i p x))"
  proof (cases "current i x")
    case (Inl e)
    with j show ?thesis by (simp add: jump_phase_def try_then_simps)
  next
    case (Inr q)
    obtain ti l where q: "q = (ti, l)" by (cases q)
    with Inr have cur: "current i x = Inr (ti, l)" by simp
    show ?thesis
    proof (cases "pe_jump p")
      case None
      with j cur show ?thesis by (simp add: jump_phase_def try_then_simps skip_def)
    next
      case (Some jmp)
      show ?thesis
      proof (cases "jmp = ''i''")
        case True
        let ?target = "case py_index (x_trace x) (int i + 1) of
                         Inl _ \<Rightarrow> None
                       | Inr nxt \<Rightarrow>
                           (case lookup_pc l (pc nxt) of None \<Rightarrow> None | Some q \<Rightarrow> pe_fn q)"
        show ?thesis
        proof (cases ?target)
          case None
          with j cur Some True show ?thesis by (simp add: jump_phase_def try_then_simps)
        next
          case f: (Some f)
          have "pres (try_then (py_index (lm_internal_calls l) (- 1)) (\<lambda>top.
                       if f \<noteq> top
                       then update_last_entry i
                              (\<lambda>l. l\<lparr>lm_internal_calls := lm_internal_calls l @ [f],
                                      lm_jumpDepth := lm_jumpDepth l + 1\<rparr>)
                       else skip))"
            by (intro pres_try_then pres_if pres_update_last_entry pres_skip entry_ok_push)
          from presD [OF this j] cur Some True f show ?thesis
            by (simp add: jump_phase_def try_then_simps)
        qed
      next
        case False
        show ?thesis
        proof (cases "lm_jumpDepth l > 0")
          case neg: False
          with j cur Some False show ?thesis by (simp add: jump_phase_def try_then_simps skip_def)
        next
          case pos: True
          show ?thesis
          proof (cases "py_index (lm_internal_calls l) (- 1)")
            case (Inl e)
            with j cur Some False pos show ?thesis by (simp add: jump_phase_def try_then_simps)
          next
            case top: (Inr top)
            have "jump_inv (snd (update_last_entry i
                    (\<lambda>l. l\<lparr>lm_internal_calls := butlast (lm_internal_calls l),
                            lm_jumpDepth := lm_jumpDepth l - 1\<rparr>) x))"
              by (rule update_last_entry_at [OF j cur]) (rule entry_ok_pop [OF _ pos])
            with cur Some False pos top show ?thesis by (simp add: jump_phase_def try_then_simps)
          qed
        qed
      qed
    qed
  qed
qed

lemma pres_with_pc:
  assumes "\<And>p. pres (k p)"
  shows "pres (with_pc i k)"
proof (rule presI)
  fix x assume j: "jump_inv x"
  show "jump_inv (snd (with_pc i k x))"
  proof (cases "current i x")
    case (Inl e)
    with j show ?thesis by (simp add: with_pc_def try_then_simps)
  next
    case (Inr q)
    obtain ti l where q: "q = (ti, l)" by (cases q)
    show ?thesis
    proof (cases "lookup_pc l (pc ti)")
      case None
      with j Inr q show ?thesis by (simp add: with_pc_def try_then_simps)
    next
      case (Some p)
      with presD [OF assms j, of p] Inr q show ?thesis by (simp add: with_pc_def try_then_simps)
    qed
  qed
qed

lemma pres_expand_body: "pres (expand_body reg i)"
  unfolding expand_body_def
  by (intro pres_seq pres_with_pc pres_subcall_phase pres_annotate pres_call_transfer
      pres_early_returndata pres_subcall_result pres_set_source pres_need_fn
      pres_coverage_phase pres_jump_phase)

lemma expand_loop_jump_inv: "jump_inv x \<Longrightarrow> jump_inv (snd (expand_loop reg ixs x))"
proof (induction ixs arbitrary: x)
  case Nil
  then show ?case by simp
next
  case (Cons i ixs)
  obtain r x' where b: "expand_body reg i x = (r, x')" by (cases "expand_body reg i x")
  with presD [OF pres_expand_body Cons.prems, of reg i] have x': "jump_inv x'" by simp
  show ?case
  proof (cases r)
    case (Raise e)
    with b x' show ?thesis by simp
  next
    case Next
    with b Cons.IH [OF x'] show ?thesis by simp
  next
    case Continue
    with b Cons.IH [OF x'] show ?thesis by simp
  qed
qed


text \<open>
  An example: a contract whose map tags pc 0 and pc 3 as returning jumps and pc 1 as a
  jump into the internal function \<open>C.g\<close>, a registry that knows it at \<open>0xC0\<close>, and
  a five-step trace through it.
\<close>

definition jump_contract :: contract where
  "jump_contract =
     \<lparr>c_name = ''C'',
      get_method = (\<lambda>_. Some ''f''),
      get_method_object = (\<lambda>_. None),
      c_pcMap = Some (\<lambda>n.
        if n = 0 then Some \<lparr>pe_op = ''JUMP'', pe_path = Some ''0'', pe_offset = Some (0, 9),
                            pe_fn = Some ''C.f'', pe_jump = Some ''o'', pe_dev = None,
                            pe_statement = None, pe_branch = None\<rparr>
        else if n = 1 then Some \<lparr>pe_op = ''JUMP'', pe_path = Some ''0'', pe_offset = Some (0, 9),
                            pe_fn = Some ''C.f'', pe_jump = Some ''i'', pe_dev = None,
                            pe_statement = None, pe_branch = None\<rparr>
        else if n = 2 then Some \<lparr>pe_op = ''JUMPDEST'', pe_path = Some ''0'', pe_offset = Some (10, 19),
                            pe_fn = Some ''C.g'', pe_jump = None, pe_dev = None,
                            pe_statement = None, pe_branch = None\<rparr>
        else if n = 3 then Some \<lparr>pe_op = ''JUMP'', pe_path = Some ''0'', pe_offset = Some (10, 19),
                            pe_fn = Some ''C.g'', pe_jump = Some ''o'', pe_dev = None,
                            pe_statement = None, pe_branch = None\<rparr>
        else if n = 4 then Some \<lparr>pe_op = ''STOP'', pe_path = Some ''0'', pe_offset = Some (0, 9),
                            pe_fn = Some ''C.f'', pe_jump = None, pe_dev = None,
                            pe_statement = None, pe_branch = None\<rparr>
        else None),
      c_allSourcePaths = Some (\<lambda>p. if p = ''0'' then Some ''C.sol'' else None),
      c_language = Some ''Solidity'',
      c_in_project = False\<rparr>"

definition jump_registry :: registry where
  "jump_registry =
     \<lparr>find_contract = (\<lambda>a. if a = ''0xC0'' then Some jump_contract else None),
      EthAddress = Inr,
      Wei = (\<lambda>v. int16 (JStr v)),
      decode_string = (\<lambda>_. None)\<rparr>"

definition plain_step :: "int \<Rightarrow> string \<Rightarrow> step" where
  "plain_step p opc = \<lparr>pc = JInt p, op = opc, depth = 0, gas = JInt 1000, gasCost = JInt 8,
      stack = [], memory = [], address = None, contractName = None, fn = None,
      jumpDepth = None, source = None\<rparr>"

definition jump_example :: "step list" where
  "jump_example = [plain_step 0 ''JUMP'', plain_step 1 ''JUMP'', plain_step 2 ''JUMPDEST'', plain_step 3 ''JUMP'', plain_step 4 ''STOP'']"

definition jump_entry :: last_entry where
  "jump_entry =
     \<lparr>lm_address = ''0xC0'', lm_jumpDepth = 1, lm_name = Some ''C'', lm_coverage = False,
      lm_function = None, lm_internal_calls = [''C.f'', ''C.g''],
      lm_path_map = c_allSourcePaths jump_contract, lm_pc_map = c_pcMap jump_contract,
      lm_active_branches = None\<rparr>"

definition jump_state :: expansion where
  "jump_state = (initial_expansion jump_example)\<lparr>x_last_map := (\<lambda>_. None)(0 := Some jump_entry)\<rparr>"

lemma jump_phase_return:
  assumes j: "jump_inv x" and cur: "current i x = Inr (ti, l)"
    and p: "pe_jump p = Some jmp" and o: "jmp \<noteq> ''i''"
  shows "jump_phase i p x =
           (Next, x\<lparr>x_last_map := (x_last_map x)(depth ti := Some
              (l\<lparr>lm_internal_calls :=
                    (if 0 < lm_jumpDepth l then butlast (lm_internal_calls l)
                     else lm_internal_calls l),
                 lm_jumpDepth :=
                    (if 0 < lm_jumpDepth l then lm_jumpDepth l - 1 else lm_jumpDepth l)\<rparr>))\<rparr>)"
proof -
  from cur have lm: "x_last_map x (depth ti) = Some l"
    by (auto simp: current_def ebind_def split: sum.splits option.splits)
  show ?thesis
  proof (cases "0 < lm_jumpDepth l")
    case False
    have "x\<lparr>x_last_map := (x_last_map x)(depth ti := Some l)\<rparr> = x"
      using lm by (simp add: fun_upd_idem)
    with False cur p o show ?thesis by (simp add: jump_phase_def try_then_simps skip_def)
  next
    case True
    from current_entry_ok [OF j cur] True have "lm_internal_calls l \<noteq> []"
      by (auto simp: entry_ok_def)
    then have "py_index (lm_internal_calls l) (- 1) = Inr (last (lm_internal_calls l))"
      by (simp add: py_index_def Let_def last_conv_nth nat_diff_distrib')
    with True cur p o show ?thesis
      by (simp add: jump_phase_def try_then_simps update_last_entry_def)
  qed
qed

lemma initial_jump_inv:
  assumes "list_all step_ok tr" "get_last_map reg r s = Inr l"
  shows "jump_inv ((initial_expansion tr)\<lparr>x_last_map := (\<lambda>_. None)(0 := Some l)\<rparr>)"
  using assms get_last_map_entry_ok [OF assms(2)]
  by (simp add: jump_inv_def initial_expansion_def)

lemma expand_core_jump_inv:
  assumes "list_all step_ok tr"
  shows "jump_inv (snd (expand_core reg receiver inp tr))"
proof (cases "case receiver of None \<Rightarrow> Inl TypeError | Some r \<Rightarrow> get_last_map reg r (take 10 inp)")
  case (Inl e)
  with assms show ?thesis by (simp add: expand_core_def jump_inv_def initial_expansion_def)
next
  case (Inr l)
  then obtain r where "get_last_map reg r (take 10 inp) = Inr l"
    by (cases receiver) auto
  from expand_loop_jump_inv [OF initial_jump_inv [OF assms this]] Inr
  show ?thesis by (simp add: expand_core_def)
qed

text \<open>
  C8. In the jump handling of the expansion, a jump whose map entry carries a \<open>jump\<close>
  tag other than \<open>i\<close> (a return from an internal function) deletes the top of the
  context's \<open>internal_calls\<close> and decrements its \<open>jumpDepth\<close> exactly when the
  \<open>jumpDepth\<close> is greater than 0, and leaves both as they are otherwise. Consequently,
  after the expansion of a trace (whether it ran to the end or an exception escaped),
  every \<open>jumpDepth\<close> written on a step is non-negative, and in every call context the
  \<open>jumpDepth\<close> is non-negative and \<open>internal_calls\<close> is not empty: it holds one
  name more than the jump depth.
\<close>

theorem return_jump_guarded:
  "(\<forall>x i p ti l jmp.
      jump_inv x \<longrightarrow> current i x = Inr (ti, l) \<longrightarrow> pe_jump p = Some jmp \<longrightarrow> jmp \<noteq> ''i'' \<longrightarrow>
        jump_phase i p x =
           (Next, x\<lparr>x_last_map := (x_last_map x)(depth ti := Some
              (l\<lparr>lm_internal_calls :=
                    (if 0 < lm_jumpDepth l then butlast (lm_internal_calls l)
                     else lm_internal_calls l),
                 lm_jumpDepth :=
                    (if 0 < lm_jumpDepth l then lm_jumpDepth l - 1 else lm_jumpDepth l)\<rparr>))\<rparr>))
   \<and> (list_all (\<lambda>s. case jumpDepth s of None \<Rightarrow> True | Some jd \<Rightarrow> 0 \<le> jd) tr \<longrightarrow>
        list_all (\<lambda>s. case jumpDepth s of None \<Rightarrow> True | Some jd \<Rightarrow> 0 \<le> jd)
          (x_trace (snd (expand_core reg receiver inp tr)))
        \<and> (\<forall>d l. x_last_map (snd (expand_core reg receiver inp tr)) d = Some l \<longrightarrow>
               0 \<le> lm_jumpDepth l \<and> lm_internal_calls l \<noteq> []
               \<and> int (length (lm_internal_calls l)) = lm_jumpDepth l + 1))"
proof (intro conjI allI impI)
  fix x i and p :: pc_entry and ti l jmp
  assume "jump_inv x" "current i x = Inr (ti, l)" "pe_jump p = Some jmp" "jmp \<noteq> ''i''"
  then show "jump_phase i p x =
           (Next, x\<lparr>x_last_map := (x_last_map x)(depth ti := Some
              (l\<lparr>lm_internal_calls :=
                    (if 0 < lm_jumpDepth l then butlast (lm_internal_calls l)
                     else lm_internal_calls l),
                 lm_jumpDepth :=
                    (if 0 < lm_jumpDepth l then lm_jumpDepth l - 1 else lm_jumpDepth l)\<rparr>))\<rparr>)"
    by (rule jump_phase_return)
next
  assume "list_all (\<lambda>s. case jumpDepth s of None \<Rightarrow> True | Some jd \<Rightarrow> 0 \<le> jd) tr"
  then have "list_all step_ok tr" by (simp add: step_ok_def [abs_def])
  from expand_core_jump_inv [OF this]
  have inv: "jump_inv (snd (expand_core reg receiver inp tr))" .
  then show "list_all (\<lambda>s. case jumpDepth s of None \<Rightarrow> True | Some jd \<Rightarrow> 0 \<le> jd)
          (x_trace (snd (expand_core reg receiver inp tr)))"
    by (simp add: jump_inv_def step_ok_def [abs_def])
  fix d l assume "x_last_map (snd (expand_core reg receiver inp tr)) d = Some l"
  with inv have "entry_ok l" by (simp add: jump_inv_def)
  then show "0 \<le> lm_jumpDepth l" "lm_internal_calls l \<noteq> []"
    "int (length (lm_internal_calls l)) = lm_jumpDepth l + 1"
    by (auto simp: entry_ok_def)
qed

theorem return_jump_guarded_witness:
  "jump_inv jump_state
   \<and> current 3 jump_state = Inr (jump_example ! 3, jump_entry)
   \<and> pe_jump (the (lookup_pc jump_entry (JInt 3))) = Some ''o''
   \<and> lm_jumpDepth (the (x_last_map (snd (jump_phase 3 (the (lookup_pc jump_entry (JInt 3))) jump_state)) 0)) = 0
   \<and> lm_internal_calls (the (x_last_map (snd (jump_phase 3 (the (lookup_pc jump_entry (JInt 3))) jump_state)) 0)) = [''C.f'']
   \<and> list_all (\<lambda>s. case jumpDepth s of None \<Rightarrow> True | Some jd \<Rightarrow> 0 \<le> jd) jump_example
   \<and> fst (expand_core jump_registry (Some ''0xC0'') ''0x12345678'' jump_example) = None
   \<and> map jumpDepth (x_trace (snd (expand_core jump_registry (Some ''0xC0'') ''0x12345678'' jump_example)))
       = [Some 0, Some 0, Some 1, Some 1, Some 0]
   \<and> list_all (\<lambda>s. case jumpDepth s of None \<Rightarrow> True | Some jd \<Rightarrow> 0 \<le> jd)
        (x_trace (snd (expand_core jump_registry (Some ''0xC0'') ''0x12345678'' jump_example)))"
proof -
  have st: "list_all step_ok jump_example" by code_simp
  have h1: "jump_inv jump_state"
    using st by (simp add: jump_inv_def jump_state_def initial_expansion_def entry_ok_def jump_entry_def)
  have d3: "depth (jump_example ! 3) = 0" by code_simp
  have l3: "py_index jump_example 3 = Inr (jump_example ! 3)" by code_simp
  have h2: "current 3 jump_state = Inr (jump_example ! 3, jump_entry)"
    using l3 d3 by (simp add: current_def jump_state_def initial_expansion_def ebind_simps)
  have h3: "pe_jump (the (lookup_pc jump_entry (JInt 3))) = Some ''o''" by code_simp
  have h4: "''o'' \<noteq> ''i''" by simp
  have jd: "lm_jumpDepth jump_entry = 1" "lm_internal_calls jump_entry = [''C.f'', ''C.g'']"
    by (simp_all add: jump_entry_def)
  from return_jump_guarded [THEN conjunct1, rule_format, OF h1 h2 h3 h4]
  have r: "jump_phase 3 (the (lookup_pc jump_entry (JInt 3))) jump_state =
           (Next, jump_state\<lparr>x_last_map := (x_last_map jump_state)(0 := Some
              (jump_entry\<lparr>lm_internal_calls := [''C.f''], lm_jumpDepth := 0\<rparr>))\<rparr>)"
    by (simp add: jd d3)
  have e0: "list_all (\<lambda>s. case jumpDepth s of None \<Rightarrow> True | Some jd \<Rightarrow> 0 \<le> jd) jump_example"
    by code_simp
  have e1: "fst (expand_core jump_registry (Some ''0xC0'') ''0x12345678'' jump_example) = None"
    by code_simp
  have e2: "map jumpDepth (x_trace (snd (expand_core jump_registry (Some ''0xC0'') ''0x12345678'' jump_example)))
       = [Some 0, Some 0, Some 1, Some 1, Some 0]"
    by code_simp
  from return_jump_guarded [THEN conjunct2, rule_format, OF e0,
      of jump_registry "Some ''0xC0''" "''0x12345678''"]
  have e3: "list_all (\<lambda>s. case jumpDepth s of None \<Rightarrow> True | Some jd \<Rightarrow> 0 \<le> jd)
        (x_trace (snd (expand_core jump_registry (Some ''0xC0'') ''0x12345678'' jump_example)))"
    by simp
  from h1 h2 h3 r e0 e1 e2 e3 show ?thesis by simp
qed
section \<open>Transaction records and the node\<close>

text \<open>The enumeration \<open>Status\<close> and its integer values.\<close>

datatype Status = Dropped | Pending | Reverted | Confirmed

fun status_value :: "Status \<Rightarrow> int" where
  "status_value Dropped = - 2"
| "status_value Pending = - 1"
| "status_value Reverted = 0"
| "status_value Confirmed = 1"

text \<open>\<open>Status(v)\<close>: ValueError for an integer that is no member.\<close>

definition Status_of :: "int \<Rightarrow> error + Status" where
  "Status_of v =
     (if v = - 2 then Inr Dropped else if v = - 1 then Inr Pending
      else if v = 0 then Inr Reverted else if v = 1 then Inr Confirmed
      else Inl ValueError)"

text \<open>
  The attributes of a \<open>TransactionReceipt\<close>, in two records. The first holds what is
  set from the pending transaction and from the receipt, the console flag \<open>_silent\<close>
  and whether the event \<open>_confirmed\<close> is set. The trace functions only read it.
\<close>

record tx_info =
  txid :: string
  sender :: string
  receiver :: "string option"
  nonce :: "int option"
  input :: string
  status :: Status
  block_number :: "int option"
  txindex :: "int option"
  gas_used :: "int option"
  contract_address :: "string option"
  contract_name :: "string option"
  fn_name :: "string option"
  confirmed :: bool
  silent :: bool
  gas_limit :: "int option"

text \<open>
  The second holds the attributes that are computed from the trace on first access and
  kept: \<open>_trace_exc\<close>, \<open>_raw_trace\<close>, \<open>_trace\<close>, \<open>_events\<close>, \<open>_return_value\<close>,
  \<open>_revert_msg\<close>, \<open>_dev_revert_msg\<close>, \<open>_modified_state\<close>, \<open>_new_contracts\<close>,
  \<open>_internal_transfers\<close>, \<open>_subcalls\<close>, \<open>_call_cost\<close> and \<open>_trace_origin\<close>.
  \<open>_raw_trace\<close> and \<open>_trace\<close> are the same list object once the trace is expanded, so
  every write of the expansion goes to both.
\<close>

record tx_cache =
  trace_exc :: "error option"
  raw_trace :: "step list option"
  cached_trace :: "step list option"
  cached_events :: "string option"
  cached_return_value :: "string option"
  cached_revert_msg :: "string option"
  cached_dev_revert_msg :: "string option"
  cached_modified_state :: "bool option"
  cached_new_contracts :: "string list option"
  cached_internal_transfers :: "(string \<times> string \<times> int) list option"
  cached_subcalls :: "subcall list option"
  call_cost :: int
  trace_origin :: "string option"

text \<open>The cache of a new object: the assignments of \<open>__init__\<close> (lines 190 to 202).\<close>

definition fresh_cache :: tx_cache where
  "fresh_cache =
     \<lparr>trace_exc = None, raw_trace = None, cached_trace = None, cached_events = None,
      cached_return_value = None, cached_revert_msg = None, cached_dev_revert_msg = None,
      cached_modified_state = None, cached_new_contracts = None,
      cached_internal_transfers = None, cached_subcalls = None, call_cost = 0,
      trace_origin = None\<rparr>"

subsection \<open>The node, as seen through \<open>web3\<close>\<close>

text \<open>
  A step as the node sends it, and its dict in \<open>structLogs\<close>: the keys that the
  expansion adds are absent.
\<close>

record raw_step =
  r_pc :: jval
  r_op :: string
  r_depth :: int
  r_gas :: jval
  r_gasCost :: jval
  r_stack :: "jval list"
  r_memory :: "string list"

definition load_step :: "raw_step \<Rightarrow> step" where
  "load_step r =
     \<lparr>pc = r_pc r, op = r_op r, depth = r_depth r, gas = r_gas r, gasCost = r_gasCost r,
      stack = r_stack r, memory = r_memory r, address = None, contractName = None,
      fn = None, jumpDepth = None, source = None\<rparr>"

text \<open>
  The answers to \<open>debug_traceTransaction\<close>: an error payload with its message, a result
  with its \<open>structLogs\<close>, or a timeout or connection error of the transport. The answer
  to the malformed probe of \<open>supports_traces\<close>: an error payload with its code, a
  payload without \<open>error\<close>, or an HTTP error.
\<close>

datatype trace_reply =
    TraceError string
  | TraceResult "raw_step list"
  | TraceTimeout
  | TraceConnectionError

datatype probe_reply = ProbeError int | ProbeNoError | ProbeHTTPError

text \<open>
  A receipt, as far as \<open>_await_confirmation\<close> and \<open>_set_from_receipt\<close> read it, and a
  pending transaction as far as \<open>wait\<close> reads it.
\<close>

record receipt =
  rc_blockHash :: "string option"
  rc_blockNumber :: int
  rc_transactionIndex :: int
  rc_gasUsed :: int
  rc_status :: int
  rc_contractAddress :: "string option"

record pending_tx =
  pt_blockNumber :: "int option"

text \<open>
  The node. Its answers to the polling requests depend on when they are asked: the
  first argument is the number of requests and sleeps so far. \<open>None\<close> for a receipt or
  a transaction is \<open>TransactionNotFound\<close>. The clock is read in whole seconds.
\<close>

record node =
  probe :: probe_reply
  debug_traceTransaction :: "string \<Rightarrow> trace_reply"
  get_transaction :: "nat \<Rightarrow> string \<Rightarrow> pending_tx option"
  get_transaction_receipt :: "nat \<Rightarrow> string \<Rightarrow> receipt option"
  get_transaction_count :: "nat \<Rightarrow> string \<Rightarrow> int"
  block_number_at :: "nat \<Rightarrow> int"
  time_at :: "nat \<Rightarrow> int"

text \<open>
  The requests that reach the node, and the state of the \<open>web3\<close> object: whether a
  provider is set, the cached \<open>_supports_traces\<close>, the requests sent so far (oldest
  first) and the number of requests and sleeps so far.
\<close>

datatype request =
    ProbeTraces
  | TraceTransaction string
  | GetTransaction string
  | GetTransactionReceipt string
  | GetTransactionCount string
  | GetBlockNumber

record web3 =
  provider :: bool
  supports_traces_cache :: "bool option"
  requests :: "request list"
  ticks :: nat

definition send :: "request \<Rightarrow> web3 \<Rightarrow> web3" where
  "send r w = w\<lparr>requests := requests w @ [r], ticks := Suc (ticks w)\<rparr>"

text \<open>The property \<open>Web3.supports_traces\<close> (\<open>web3.py\<close>, lines 122 to 137).\<close>

definition supports_traces :: "node \<Rightarrow> web3 \<Rightarrow> (error + bool) \<times> web3" where
  "supports_traces nd w =
     (if \<not> provider w then (Inr False, w)
      else (case supports_traces_cache w of
              Some b \<Rightarrow> (Inr b, w)
            | None \<Rightarrow>
                (case probe nd of
                   ProbeError code \<Rightarrow>
                     (Inr (code \<noteq> - 32601),
                      (send ProbeTraces w)\<lparr>supports_traces_cache := Some (code \<noteq> - 32601)\<rparr>)
                 | ProbeNoError \<Rightarrow> (Inl KeyError, send ProbeTraces w)
                 | ProbeHTTPError \<Rightarrow>
                     (Inr False, (send ProbeTraces w)\<lparr>supports_traces_cache := Some False\<rparr>))))"

section \<open>Fetching and caching the trace\<close>

text \<open>
  Functions of other modules that the code below calls, taken as parameters:
  \<open>build._get_dev_revert\<close>, \<open>decode_typed_error\<close>, \<open>_decode_logs\<close> (of the logs of
  the receipt and the contracts at their addresses, so a function of the transaction),
  \<open>_decode_trace\<close>, \<open>coverage._check_cached\<close> of the transaction's coverage hash, and
  the setting \<open>CONFIG.argv["coverage"]\<close>. Decoded events are kept as their rendering.
  \<open>source_revert\<close> is the search of the build's source map and sources for a dev revert
  string (lines 787 to 825 of \<open>_reverted_trace\<close>) for the step at an index of the
  expanded trace: an escaping exception, or the trace with the step's \<open>source\<close> as the
  search leaves it and \<open>None\<close> when one of the four caught exceptions ended the search,
  else the string found, if any.
\<close>

record externals =
  get_dev_revert :: "jval \<Rightarrow> string option"
  decode_typed_error :: "string \<Rightarrow> error + string"
  source_revert :: "step list \<Rightarrow> nat \<Rightarrow> error + step list \<times> string option option"
  decode_logs :: "tx_info \<Rightarrow> error + string"
  decode_trace :: "step list option \<Rightarrow> string \<Rightarrow> error + string"
  check_cached :: "tx_info \<Rightarrow> bool"
  argv_coverage :: bool

text \<open>Truth of an optional string: \<open>None\<close> and the empty string are false.\<close>

definition truthy :: "string option \<Rightarrow> bool" where
  "truthy a = (case a of None \<Rightarrow> False | Some s \<Rightarrow> s \<noteq> [])"

text \<open>Truth of a status: an \<open>IntEnum\<close> is false when its value is 0.\<close>

definition status_true :: "tx_info \<Rightarrow> bool" where
  "status_true t = (status_value (status t) \<noteq> 0)"

definition plain_transfer :: "tx_info \<Rightarrow> bool" where
  "plain_transfer t = (input t = ''0x'' \<and> gas_used t = Some 21000)"

text \<open>\<open>_confirmed_trace\<close> (lines 725 to 738).\<close>

definition confirmed_trace ::
  "registry \<Rightarrow> tx_info \<Rightarrow> step list \<Rightarrow> tx_cache \<Rightarrow> error option \<times> tx_cache" where
  "confirmed_trace reg t tr c =
     (let c1 = c\<lparr>cached_modified_state := Some (list_ex (\<lambda>i. op i = ''SSTORE'') tr)\<rparr> in
      case py_index tr (- 1) of
        Inl e \<Rightarrow> (Some e, c1)
      | Inr lst \<Rightarrow>
          if op lst \<noteq> ''RETURN'' \<or> truthy (contract_address t) then (None, c1)
          else (case (case receiver t of None \<Rightarrow> None | Some r \<Rightarrow> find_contract reg r) of
                  None \<Rightarrow> (None, c1)
                | Some con \<Rightarrow>
                    (case get_memory lst (- 1) of
                       Inl e \<Rightarrow> (Some e, c1)
                     | Inr data \<Rightarrow>
                         (case get_method_object con (input t) of
                            None \<Rightarrow> (None, c1)
                          | Some f \<Rightarrow>
                              (case decode_output f data of
                                 None \<Rightarrow> (Some DecodingError, c1)
                               | Some v \<Rightarrow> (None, c1\<lparr>cached_return_value := Some v\<rparr>))))))"

text \<open>
  The part of \<open>_expand_trace\<close> after the raw trace is loaded (lines 854 to 1035). The
  expanded trace is the list object of the raw trace, so both attributes follow every
  write.
\<close>

definition set_both_traces :: "step list \<Rightarrow> tx_cache \<Rightarrow> tx_cache" where
  "set_both_traces tr c = c\<lparr>raw_trace := Some tr, cached_trace := Some tr\<rparr>"

definition expand_loaded :: "registry \<Rightarrow> tx_info \<Rightarrow> tx_cache \<Rightarrow> error option \<times> tx_cache" where
  "expand_loaded reg t c =
     (if cached_trace c \<noteq> None then (None, c)
      else
        (let c1 = c\<lparr>cached_trace := raw_trace c, cached_new_contracts := Some [],
                    cached_internal_transfers := Some [], cached_subcalls := Some []\<rparr>
         in case raw_trace c of
              None \<Rightarrow> (None, c1)
            | Some tr \<Rightarrow>
                if truthy (contract_address t) \<or> tr = [] then (None, c1)
                else (case prepare_trace (gas_used t) tr of
                        (origin, Inl e) \<Rightarrow> (Some e, c1\<lparr>trace_origin := origin\<rparr>)
                      | (origin, Inr (cc, tr1)) \<Rightarrow>
                          (case expand_core reg (receiver t) (input t) tr1 of
                             (err, x) \<Rightarrow>
                               (err,
                                set_both_traces (x_trace x)
                                  (c1\<lparr>trace_origin := origin, call_cost := cc,
                                      cached_new_contracts := Some (x_new_contracts x),
                                      cached_internal_transfers := Some (x_internal_transfers x),
                                      cached_subcalls := Some (x_subcalls x)\<rparr>))))))"

subsection \<open>\<open>_reverted_trace\<close> (lines 740 to 828)\<close>

text \<open>Lines 742 to 746: the deployment of a contract over the size limit of EIP-170.\<close>

definition size_limit :: "tx_info \<Rightarrow> step list \<Rightarrow> tx_cache \<Rightarrow> error option \<times> tx_cache" where
  "size_limit t tr c =
     (if truthy (contract_address t)
      then (case find (\<lambda>i. op i = ''CODECOPY'') tr of
              None \<Rightarrow> (None, c)
            | Some st \<Rightarrow>
                (case ebind (py_index (stack st) (- 3)) int16 of
                   Inl e \<Rightarrow> (Some e, c)
                 | Inr n \<Rightarrow>
                     if n > 24577
                     then (None, c\<lparr>cached_revert_msg := Some ''exceeds EIP-170 size limit'',
                                    cached_dev_revert_msg := Some ''''\<rparr>)
                     else (None, c)))
      else (None, c))"

text \<open>
  Lines 827 and 828 of the loop body: with a revert message the function returns, the
  dev revert message being at least the empty string; without one the loop goes on.
  \<open>Inr True\<close> is the return, \<open>Inr False\<close> the next iteration.
\<close>

definition revert_found :: "tx_cache \<Rightarrow> (error + bool) \<times> tx_cache" where
  "revert_found c =
     (if cached_revert_msg c \<noteq> None
      then (Inr True,
            c\<lparr>cached_dev_revert_msg :=
                 (case cached_dev_revert_msg c of None \<Rightarrow> Some '''' | Some d \<Rightarrow> Some d)\<rparr>)
      else (Inr False, c))"

text \<open>
  Lines 763 to 825: the dev revert string of the step at index \<open>k\<close>, from the map of
  program counters or, after expanding the trace, from the source.
\<close>

definition dev_revert :: "registry \<Rightarrow> externals \<Rightarrow> tx_info \<Rightarrow> nat \<Rightarrow> step \<Rightarrow> tx_cache \<Rightarrow> (error + bool) \<times> tx_cache" where
  "dev_revert reg ext t k st c =
     (case (case get_dev_revert ext (pc st) of
              None \<Rightarrow> None
            | Some d \<Rightarrow> if d = [] then None else Some d) of
        Some d \<Rightarrow>
          revert_found
            (c\<lparr>cached_dev_revert_msg := Some d,
               cached_revert_msg :=
                 (case cached_revert_msg c of None \<Rightarrow> Some d | Some m \<Rightarrow> Some m)\<rparr>)
      | None \<Rightarrow>
          (case expand_loaded reg t c of
             (Some e, c1) \<Rightarrow> (Inl e, c1)
           | (None, c1) \<Rightarrow>
               (case raw_trace c1 of
                  None \<Rightarrow> (Inl TypeError, c1)
                | Some tr \<Rightarrow>
                    (case source_revert ext tr k of
                       Inl e \<Rightarrow> (Inl e, c1)
                     | Inr (tr1, None) \<Rightarrow> revert_found (set_both_traces tr1 c1)
                     | Inr (tr1, Some d) \<Rightarrow>
                         (Inr True,
                          (set_both_traces tr1 c1)
                            \<lparr>cached_dev_revert_msg := d,
                             cached_revert_msg :=
                               (case cached_revert_msg c1 of
                                  None \<Rightarrow> Some (case d of None \<Rightarrow> '''' | Some s \<Rightarrow> s)
                                | Some m \<Rightarrow> Some m)\<rparr>)))))"

text \<open>Lines 752 to 761: the revert message of the step at index \<open>k\<close>, then the rest.\<close>

definition revert_step :: "registry \<Rightarrow> externals \<Rightarrow> tx_info \<Rightarrow> nat \<Rightarrow> step \<Rightarrow> tx_cache \<Rightarrow> (error + bool) \<times> tx_cache" where
  "revert_step reg ext t k st c =
     (case (if op st = ''REVERT'' then ebind (py_index (stack st) (- 2)) int16 else Inr 0) of
        Inl e \<Rightarrow> (Inl e, c)
      | Inr n \<Rightarrow>
          if op st = ''REVERT'' \<and> n \<noteq> 0
          then (case ebind (get_memory st (- 1))
                       (\<lambda>data. decode_typed_error ext (hexbytes_to_hexstring data)) of
                  Inl e \<Rightarrow> (Inl e, c)
                | Inr m \<Rightarrow> dev_revert reg ext t k st (c\<lparr>cached_revert_msg := Some m\<rparr>))
          else if truthy (contract_address t)
          then (Inr True,
                c\<lparr>cached_revert_msg := Some (if op st = ''INVALID'' then ''invalid opcode'' else ''''),
                  cached_dev_revert_msg := Some ''''\<rparr>)
          else dev_revert reg ext t k st c)"

text \<open>
  The loop of line 752 over the steps with a reverting opcode, last first. The steps are
  read from the raw trace at each iteration: the expansion, when an iteration runs it,
  writes to the very same dicts.
\<close>

definition reverting :: "step \<Rightarrow> bool" where
  "reverting st = (op st = ''REVERT'' \<or> op st = ''INVALID'')"

fun revert_loop :: "registry \<Rightarrow> externals \<Rightarrow> tx_info \<Rightarrow> nat list \<Rightarrow> tx_cache \<Rightarrow> (error + bool) \<times> tx_cache" where
  "revert_loop reg ext t [] c = (Inr False, c)"
| "revert_loop reg ext t (k # ks) c =
     (case raw_trace c of
        None \<Rightarrow> (Inl TypeError, c)
      | Some tr \<Rightarrow>
          if k < length tr \<and> reverting (tr ! k)
          then (case revert_step reg ext t k (tr ! k) c of
                  (Inr False, c1) \<Rightarrow> revert_loop reg ext t ks c1
                | r \<Rightarrow> r)
          else revert_loop reg ext t ks c)"

definition reverted_trace ::
  "registry \<Rightarrow> externals \<Rightarrow> tx_info \<Rightarrow> step list \<Rightarrow> tx_cache \<Rightarrow> error option \<times> tx_cache" where
  "reverted_trace reg ext t tr c =
     (case size_limit t tr (c\<lparr>cached_modified_state := Some False\<rparr>) of
        (Some e, c1) \<Rightarrow> (Some e, c1)
      | (None, c1) \<Rightarrow>
          if cached_dev_revert_msg c1 \<noteq> None then (None, c1)
          else (case revert_loop reg ext t (rev [0..<length tr]) c1 of
                  (Inl e, c2) \<Rightarrow> (Some e, c2)
                | (Inr True, c2) \<Rightarrow> (None, c2)
                | (Inr False, c2) \<Rightarrow>
                    (None,
                     c2\<lparr>cached_revert_msg :=
                          Some (case find reverting (rev tr) of
                                  None \<Rightarrow> ''''
                                | Some st \<Rightarrow> if op st = ''INVALID'' then ''invalid opcode'' else '''')\<rparr>)))"

subsection \<open>\<open>_get_trace\<close> (lines 647 to 723)\<close>

definition no_trace_support :: error where
  "no_trace_support = RPCRequestError ''Node client does not support `debug_traceTransaction`''"

definition transport_failure :: "externals \<Rightarrow> string \<Rightarrow> error" where
  "transport_failure ext name =
     RPCRequestError
       (''Encountered a '' @ name @ '' while requesting `debug_traceTransaction`. '' @
        ''The local RPC client has likely crashed.'' @
        (if argv_coverage ext
         then '' If the error persists, add the `skip_coverage` marker to this test.''
         else ''''))"

text \<open>Lines 684 to 723: a result is stored, brought to the canonical format and searched.\<close>

definition store_trace ::
  "registry \<Rightarrow> externals \<Rightarrow> tx_info \<Rightarrow> step list \<Rightarrow> tx_cache \<Rightarrow> error option \<times> tx_cache" where
  "store_trace reg ext t tr c =
     (if tr = [] then (None, c\<lparr>raw_trace := Some [], cached_modified_state := Some False\<rparr>)
      else (case normalize_trace tr of
              (Some e, tr1) \<Rightarrow> (Some e, c\<lparr>raw_trace := Some tr1\<rparr>)
            | (None, tr1) \<Rightarrow>
                if status_true t then confirmed_trace reg t tr1 (c\<lparr>raw_trace := Some tr1\<rparr>)
                else reverted_trace reg ext t tr1 (c\<lparr>raw_trace := Some tr1\<rparr>)))"

text \<open>
  The state that the functions of a \<open>TransactionReceipt\<close> about its trace work on: the
  cache of the object and the \<open>web3\<close> object.
\<close>

type_synonym tstate = "tx_cache \<times> web3"

definition get_trace ::
  "node \<Rightarrow> registry \<Rightarrow> externals \<Rightarrow> tx_info \<Rightarrow> tstate \<Rightarrow> error option \<times> tstate" where
  "get_trace nd reg ext t = (\<lambda>(c, w).
     if raw_trace c \<noteq> None then (None, c, w)
     else if plain_transfer t
     then (None, c\<lparr>raw_trace := Some [], cached_modified_state := Some False,
                   cached_trace := Some []\<rparr>, w)
     else
       (case supports_traces nd w of
          (Inl e, w1) \<Rightarrow> (Some e, c\<lparr>raw_trace := Some []\<rparr>, w1)
        | (Inr False, w1) \<Rightarrow> (Some no_trace_support, c\<lparr>raw_trace := Some []\<rparr>, w1)
        | (Inr True, w1) \<Rightarrow>
            (case debug_traceTransaction nd (txid t) of
               TraceTimeout \<Rightarrow>
                 (Some (transport_failure ext ''Timeout''), c\<lparr>raw_trace := Some []\<rparr>,
                  send (TraceTransaction (txid t)) w1)
             | TraceConnectionError \<Rightarrow>
                 (Some (transport_failure ext ''ConnectionError''), c\<lparr>raw_trace := Some []\<rparr>,
                  send (TraceTransaction (txid t)) w1)
             | TraceError msg \<Rightarrow>
                 (Some (RPCRequestError msg),
                  c\<lparr>raw_trace := Some [], cached_modified_state := None,
                    trace_exc := Some (RPCRequestError msg)\<rparr>,
                  send (TraceTransaction (txid t)) w1)
             | TraceResult logs \<Rightarrow>
                 (case store_trace reg ext t (map load_step logs) (c\<lparr>raw_trace := Some []\<rparr>) of
                    (err, c1) \<Rightarrow> (err, c1, send (TraceTransaction (txid t)) w1)))))"

text \<open>\<open>_expand_trace\<close> (lines 843 to 1035).\<close>

definition expand_trace ::
  "node \<Rightarrow> registry \<Rightarrow> externals \<Rightarrow> tx_info \<Rightarrow> tstate \<Rightarrow> error option \<times> tstate" where
  "expand_trace nd reg ext t = (\<lambda>(c, w).
     case (if raw_trace c = None then get_trace nd reg ext t (c, w) else (None, c, w)) of
       (Some e, s) \<Rightarrow> (Some e, s)
     | (None, c1, w1) \<Rightarrow> (case expand_loaded reg t c1 of (err, c2) \<Rightarrow> (err, c2, w1)))"

subsection \<open>The decorator \<open>trace_property\<close> and the nine properties\<close>

definition status_name :: "Status \<Rightarrow> string" where
  "status_name s =
     (case s of Dropped \<Rightarrow> ''dropped'' | Pending \<Rightarrow> ''pending''
      | Reverted \<Rightarrow> ''reverted'' | Confirmed \<Rightarrow> ''confirmed'')"

definition trace_unavailable :: "string \<Rightarrow> Status \<Rightarrow> error" where
  "trace_unavailable name s =
     RPCRequestError
       (''Accessing `TransactionReceipt.'' @ name @ ''` on a '' @ status_name s @
        '' transaction requires the `debug_traceTransaction` RPC endpoint, but the node '' @
        ''client does not support it or has not made it available.'')"

text \<open>
  The wrapper of \<open>trace_property\<close> (lines 63 to 80) around the body of a property. A
  property's value is \<open>None\<close> for Python's \<open>None\<close>.
\<close>

definition trace_property ::
  "node \<Rightarrow> string \<Rightarrow> tx_info \<Rightarrow> (tstate \<Rightarrow> (error + 'a option) \<times> tstate) \<Rightarrow>
   tstate \<Rightarrow> (error + 'a option) \<times> tstate" where
  "trace_property nd name t body = (\<lambda>(c, w).
     if status_value (status t) < 0 then (Inr None, c, w)
     else (case trace_exc c of
             Some e \<Rightarrow> (Inl e, c, w)
           | None \<Rightarrow>
               (case body (c, w) of
                  (Inl (RPCRequestError m), c1, w1) \<Rightarrow>
                    (case supports_traces nd w1 of
                       (Inl e, w2) \<Rightarrow> (Inl e, c1, w2)
                     | (Inr True, w2) \<Rightarrow> (Inl (RPCRequestError m), c1, w2)
                     | (Inr False, w2) \<Rightarrow> (Inl (trace_unavailable name (status t)), c1, w2))
                | r \<Rightarrow> r)))"

text \<open>Running a step that can raise, then reading an attribute of the cache.\<close>

definition then_read ::
  "error option \<times> tstate \<Rightarrow> (tx_cache \<Rightarrow> 'a option) \<Rightarrow> (error + 'a option) \<times> tstate" where
  "then_read r field =
     (case r of (Some e, s) \<Rightarrow> (Inl e, s) | (None, c, w) \<Rightarrow> (Inr (field c), c, w))"

definition events ::
  "node \<Rightarrow> registry \<Rightarrow> externals \<Rightarrow> tx_info \<Rightarrow> tstate \<Rightarrow> (error + string option) \<times> tstate" where
  "events nd reg ext t =
     trace_property nd ''events'' t (\<lambda>(c, w).
       if cached_events c \<noteq> None then (Inr (cached_events c), c, w)
       else if status_true t
       then (case decode_logs ext t of
               Inl e \<Rightarrow> (Inl e, c, w)
             | Inr ev \<Rightarrow> (Inr (Some ev), c\<lparr>cached_events := Some ev\<rparr>, w))
       else (case get_trace nd reg ext t (c, w) of
               (Some e, s) \<Rightarrow> (Inl e, s)
             | (None, c1, w1) \<Rightarrow>
                 (case decode_trace ext (raw_trace c1)
                         (if truthy (receiver t) then the (receiver t)
                          else (case contract_address t of None \<Rightarrow> ''None'' | Some a \<Rightarrow> a)) of
                    Inl e \<Rightarrow> (Inl e, c1, w1)
                  | Inr ev \<Rightarrow> (Inr (Some ev), c1\<lparr>cached_events := Some ev\<rparr>, w1))))"

definition internal_transfers ::
  "node \<Rightarrow> registry \<Rightarrow> externals \<Rightarrow> tx_info \<Rightarrow> tstate \<Rightarrow>
   (error + (string \<times> string \<times> int) list option) \<times> tstate" where
  "internal_transfers nd reg ext t =
     trace_property nd ''internal_transfers'' t (\<lambda>(c, w).
       if \<not> status_true t then (Inr (Some []), c, w)
       else then_read (if cached_internal_transfers c = None
                       then expand_trace nd reg ext t (c, w) else (None, c, w))
              cached_internal_transfers)"

definition modified_state ::
  "node \<Rightarrow> registry \<Rightarrow> externals \<Rightarrow> tx_info \<Rightarrow> tstate \<Rightarrow> (error + bool option) \<times> tstate" where
  "modified_state nd reg ext t =
     trace_property nd ''modified_state'' t (\<lambda>(c, w).
       if \<not> status_true t
       then (Inr (Some False), c\<lparr>cached_modified_state := Some False\<rparr>, w)
       else then_read (if cached_modified_state c = None
                       then get_trace nd reg ext t (c, w) else (None, c, w))
              cached_modified_state)"

definition new_contracts ::
  "node \<Rightarrow> registry \<Rightarrow> externals \<Rightarrow> tx_info \<Rightarrow> tstate \<Rightarrow> (error + string list option) \<times> tstate" where
  "new_contracts nd reg ext t =
     trace_property nd ''new_contracts'' t (\<lambda>(c, w).
       if \<not> status_true t then (Inr (Some []), c, w)
       else then_read (if cached_new_contracts c = None
                       then expand_trace nd reg ext t (c, w) else (None, c, w))
              cached_new_contracts)"

definition return_value ::
  "node \<Rightarrow> registry \<Rightarrow> externals \<Rightarrow> tx_info \<Rightarrow> tstate \<Rightarrow> (error + string option) \<times> tstate" where
  "return_value nd reg ext t =
     trace_property nd ''return_value'' t (\<lambda>(c, w).
       if \<not> status_true t then (Inr None, c, w)
       else then_read (if cached_return_value c = None
                       then get_trace nd reg ext t (c, w) else (None, c, w))
              cached_return_value)"

definition revert_msg ::
  "node \<Rightarrow> registry \<Rightarrow> externals \<Rightarrow> tx_info \<Rightarrow> tstate \<Rightarrow> (error + string option) \<times> tstate" where
  "revert_msg nd reg ext t =
     trace_property nd ''revert_msg'' t (\<lambda>(c, w).
       if status_true t then (Inr None, c, w)
       else then_read (if cached_revert_msg c = None
                          \<or> truthy (contract_address t) \<and> cached_revert_msg c = Some ''out of gas''
                       then get_trace nd reg ext t (c, w) else (None, c, w))
              cached_revert_msg)"

definition dev_revert_msg ::
  "node \<Rightarrow> registry \<Rightarrow> externals \<Rightarrow> tx_info \<Rightarrow> tstate \<Rightarrow> (error + string option) \<times> tstate" where
  "dev_revert_msg nd reg ext t =
     trace_property nd ''dev_revert_msg'' t (\<lambda>(c, w).
       if status_true t then (Inr None, c, w)
       else then_read (if cached_dev_revert_msg c = None
                       then get_trace nd reg ext t (c, w) else (None, c, w))
              (\<lambda>c. if truthy (cached_dev_revert_msg c) then cached_dev_revert_msg c else None))"

text \<open>
  The property \<open>subcalls\<close> (lines 321 to 326): \<open>filter\<close> over \<open>None\<close> raises TypeError.
\<close>

definition subcalls ::
  "node \<Rightarrow> registry \<Rightarrow> externals \<Rightarrow> tx_info \<Rightarrow> tstate \<Rightarrow> (error + subcall list option) \<times> tstate" where
  "subcalls nd reg ext t =
     trace_property nd ''subcalls'' t (\<lambda>(c, w).
       case (if cached_subcalls c = None
             then expand_trace nd reg ext t (c, w) else (None, c, w)) of
         (Some e, s) \<Rightarrow> (Inl e, s)
       | (None, c1, w1) \<Rightarrow>
           (case cached_subcalls c1 of
              None \<Rightarrow> (Inl TypeError, c1, w1)
            | Some subs \<Rightarrow> (Inr (Some (filter (\<lambda>s. \<not> is_call_to_precompile s) subs)), c1, w1)))"

definition trace ::
  "node \<Rightarrow> registry \<Rightarrow> externals \<Rightarrow> tx_info \<Rightarrow> tstate \<Rightarrow> (error + step list option) \<times> tstate" where
  "trace nd reg ext t =
     trace_property nd ''trace'' t (\<lambda>(c, w).
       then_read (if cached_trace c = None
                  then expand_trace nd reg ext t (c, w) else (None, c, w))
         cached_trace)"

end
